theory Spec2Isabelle
  imports Main "HOL-Library.Sublist" "HOL-Library.Product_Lexorder" "HOL-Library.Char_ord"
    "HOL-Library.List_Lexorder" "HOL-Library.Multiset"
begin

section \<open>Data model\<close>

text \<open>
  The storage backend of collective.whathappened (\<^verbatim>\<open>storage_backend.py\<close>) keeps, per user,
  an SQLite database of three tables. The embedding below models the tables as lists of
  rows in insertion order, every SQL statement the backend executes as a function on the
  database, and every method of \<^verbatim>\<open>SqliteStorageBackend\<close> as a function on the backend
  object that returns the outcome of the call (a value or a raised exception) together
  with the backend afterwards.

  Timestamps are integers (epoch seconds): \<^verbatim>\<open>getWhenTimestamp\<close> and
  \<^verbatim>\<open>datetime.fromtimestamp\<close> are taken as inverse to each other. The \<^verbatim>\<open>info\<close> payload is
  carried in its serialised form, the text \<^verbatim>\<open>json.dumps\<close> produces, which is what the
  backend stores and compares. Actor identifiers are texts that do not read as numbers:
  the column \<^verbatim>\<open>who\<close> is declared \<^verbatim>\<open>INTEGER\<close>, so SQLite would store a text that is a
  numeric literal as that number (\<^verbatim>\<open>007\<close> as 7); such identifiers are outside the model,
  which stores every identifier as it is.
\<close>

text \<open>
  Modelled from the spec: the \<^verbatim>\<open>Notification\<close> class the backend uses (eight constructor
  arguments, the attributes \<^verbatim>\<open>gatherer\<close>, \<^verbatim>\<open>seen\<close>, \<^verbatim>\<open>info\<close> and the method
  \<^verbatim>\<open>getWhenTimestamp\<close>) is not the five-argument class of \<^verbatim>\<open>notification.py\<close>; its fields
  are taken from section 3 of the specification and from the attribute accesses of
  \<^verbatim>\<open>storage_backend.py\<close>. The \<^verbatim>\<open>user\<close> argument is the backend's own user and is left out.
\<close>

record notification =
  n_what :: string
  n_where :: string
  n_when :: int
  n_who :: "string list"
  n_gatherer :: string
  n_seen :: bool
  n_info :: string

text \<open>
  Modelled from the spec: the module \<^verbatim>\<open>subscription.py\<close> is missing; a subscription carries
  \<^verbatim>\<open>where\<close> and the tri-state \<^verbatim>\<open>wants\<close> (\<^verbatim>\<open>True\<close>, \<^verbatim>\<open>False\<close> or \<^verbatim>\<open>None\<close>).
\<close>

record subscription =
  s_where :: string
  s_wants :: "bool option"

text \<open>
  Modelled from the spec: the module \<^verbatim>\<open>event.py\<close> is missing; the two domain events carry
  the location. \<^verbatim>\<open>event.notify\<close> is modelled by appending to the list of events emitted.
\<close>

datatype event = SubscribedEvent string | BlacklistedEvent string

text \<open>The rows of the tables \<^verbatim>\<open>notifications\<close>, \<^verbatim>\<open>notifications_who\<close> and \<^verbatim>\<open>subscriptions\<close>.\<close>

record notifications_row =
  r_what :: string
  r_when :: int
  r_where :: string
  r_seen :: bool
  r_gatherer :: string
  r_info :: string

record who_row =
  w_what :: string
  w_when :: int
  w_where :: string
  w_who :: string

record subscriptions_row =
  sub_where :: string
  sub_wants :: bool

text \<open>
  An open connection. \<^verbatim>\<open>foreign_keys\<close> is SQLite's pragma of that name: the backend never
  sets it, so it has the default of the SQLite library in use (off, unless the library
  was built otherwise). With the pragma off the \<^verbatim>\<open>FOREIGN KEY ... ON DELETE CASCADE\<close> clause
  of \<^verbatim>\<open>notifications_who\<close> is ignored.
\<close>

record database =
  notifications :: "notifications_row list"
  notifications_who :: "who_row list"
  subscriptions :: "subscriptions_row list"
  foreign_keys :: bool

text \<open>The backend object: \<^verbatim>\<open>self.db\<close> (\<^verbatim>\<open>None\<close> while no session is open) and the events emitted.\<close>

record backend =
  db :: "database option"
  events :: "event list"

datatype error = IntegrityError | OperationalError | AttributeError | TypeError

datatype 'a outcome = Return 'a | Raise error

type_synonym key = "string \<times> int \<times> string"

definition key_of_row :: "notifications_row \<Rightarrow> key" where
  "key_of_row r = (r_what r, r_when r, r_where r)"

definition key_of_who :: "who_row \<Rightarrow> key" where
  "key_of_who w = (w_what w, w_when w, w_where w)"

section \<open>SQL statements\<close>

text \<open>\<^verbatim>\<open>INSERT INTO notifications\<close>: the primary key is (what, when, where).\<close>

definition insert_notifications :: "notifications_row \<Rightarrow> database \<Rightarrow> error + database" where
  "insert_notifications r d =
     (if list_ex (\<lambda>x. key_of_row x = key_of_row r) (notifications d) then Inl IntegrityError
      else Inr (d\<lparr>notifications := notifications d @ [r]\<rparr>))"

text \<open>
  \<^verbatim>\<open>INSERT INTO notifications_who\<close>: the primary key is the whole row; with foreign keys
  enforced the parent row must exist.
\<close>

definition insert_notifications_who :: "who_row \<Rightarrow> database \<Rightarrow> error + database" where
  "insert_notifications_who w d =
     (if list_ex (\<lambda>x. x = w) (notifications_who d) then Inl IntegrityError
      else if foreign_keys d \<and> \<not> list_ex (\<lambda>x. key_of_row x = key_of_who w) (notifications d)
      then Inl IntegrityError
      else Inr (d\<lparr>notifications_who := notifications_who d @ [w]\<rparr>))"

text \<open>
  \<^verbatim>\<open>DELETE FROM notifications WHERE ...\<close>: with foreign keys enforced the actor rows of
  every deleted row go with it.
\<close>

definition delete_notifications :: "(notifications_row \<Rightarrow> bool) \<Rightarrow> database \<Rightarrow> database" where
  "delete_notifications P d =
     d\<lparr>notifications := filter (\<lambda>r. \<not> P r) (notifications d),
       notifications_who :=
         (if foreign_keys d
          then filter (\<lambda>w. \<not> list_ex (\<lambda>r. P r \<and> key_of_row r = key_of_who w) (notifications d))
                 (notifications_who d)
          else notifications_who d)\<rparr>"

text \<open>\<^verbatim>\<open>UPDATE notifications SET seen = 1 WHERE ...\<close>\<close>

definition update_seen :: "(notifications_row \<Rightarrow> bool) \<Rightarrow> database \<Rightarrow> database" where
  "update_seen P d =
     d\<lparr>notifications := map (\<lambda>r. if P r then r\<lparr>r_seen := True\<rparr> else r) (notifications d)\<rparr>"

text \<open>
  \<^verbatim>\<open>REMOVE FROM notifications WHERE `when` < ?\<close>: no SQL statement starts with
  \<^verbatim>\<open>REMOVE\<close>; SQLite refuses the text when it prepares it (a syntax error, which the
  \<^verbatim>\<open>sqlite3\<close> module raises as \<^verbatim>\<open>OperationalError\<close>), whatever the tables hold.
\<close>

definition remove_from_notifications :: "int \<Rightarrow> database \<Rightarrow> error + database" where
  "remove_from_notifications timestamp d = Inl OperationalError"

text \<open>The statements on \<^verbatim>\<open>subscriptions\<close>, whose primary key is \<^verbatim>\<open>where\<close>.\<close>

definition insert_subscriptions :: "subscriptions_row \<Rightarrow> database \<Rightarrow> error + database" where
  "insert_subscriptions s d =
     (if list_ex (\<lambda>x. sub_where x = sub_where s) (subscriptions d) then Inl IntegrityError
      else Inr (d\<lparr>subscriptions := subscriptions d @ [s]\<rparr>))"

definition update_subscriptions :: "bool \<Rightarrow> string \<Rightarrow> database \<Rightarrow> database" where
  "update_subscriptions wants wh d =
     d\<lparr>subscriptions :=
         map (\<lambda>x. if sub_where x = wh then x\<lparr>sub_wants := wants\<rparr> else x) (subscriptions d)\<rparr>"

definition delete_subscriptions :: "string \<Rightarrow> database \<Rightarrow> database" where
  "delete_subscriptions wh d =
     d\<lparr>subscriptions := filter (\<lambda>x. sub_where x \<noteq> wh) (subscriptions d)\<rparr>"

text \<open>
  SQLite's \<^verbatim>\<open>LIKE\<close> (no \<^verbatim>\<open>ESCAPE\<close>): \<^verbatim>\<open>%\<close> in the pattern matches any run of characters,
  \<^verbatim>\<open>_\<close> any one character, and every other character matches itself, upper and lower
  case ASCII letters being the same.
\<close>

definition ascii_lower :: "char \<Rightarrow> char" where
  "ascii_lower c =
     (let n = (of_char c :: nat) in if 65 \<le> n \<and> n \<le> 90 then char_of (n + 32) else c)"

fun like :: "string \<Rightarrow> string \<Rightarrow> bool" where
  "like [] s = (s = [])"
| "like (p # ps) [] = (p = CHR ''%'' \<and> like ps [])"
| "like (p # ps) (c # cs) =
     (if p = CHR ''%'' then like ps (c # cs) \<or> like (p # ps) cs
      else (p = CHR ''_'' \<or> ascii_lower p = ascii_lower c) \<and> like ps cs)"

text \<open>
  \<^verbatim>\<open>GROUP_CONCAT(nw.`who`, ', ')\<close> over the actor rows of a group: \<^verbatim>\<open>NULL\<close> when the group
  has none. \<^verbatim>\<open>split\<close> is Python's \<^verbatim>\<open>str.split(', ')\<close>.
\<close>

definition group_concat :: "string list \<Rightarrow> string option" where
  "group_concat xs =
     (case xs of [] \<Rightarrow> None | x # ys \<Rightarrow> Some (foldl (\<lambda>a b. a @ '', '' @ b) x ys))"

fun split_from :: "string \<Rightarrow> string \<Rightarrow> string list" where
  "split_from cur [] = [rev cur]"
| "split_from cur [c] = [rev (c # cur)]"
| "split_from cur (c # d # cs) =
     (if c = CHR '','' \<and> d = CHR '' '' then rev cur # split_from [] cs
      else split_from (c # cur) (d # cs))"

definition split :: "string \<Rightarrow> string list" where
  "split s = split_from [] s"

text \<open>
  The actors of a notification row, in the order in which \<^verbatim>\<open>GROUP_CONCAT\<close> meets them. SQL
  leaves that order open; SQLite reads the actor rows of a group through the index of the
  primary key (what, when, where, who) of \<^verbatim>\<open>notifications_who\<close>, that is in ascending
  order of \<^verbatim>\<open>who\<close> (texts compared byte by byte).
\<close>

definition whos_of :: "database \<Rightarrow> notifications_row \<Rightarrow> string list" where
  "whos_of d r =
     sort (map w_who (filter (\<lambda>w. key_of_who w = key_of_row r) (notifications_who d)))"

text \<open>
  The two joins of the read queries, grouped by the key of the notification row: the
  left join keeps every notification row, the inner join those with an actor row.
\<close>

definition left_join_grouped :: "database \<Rightarrow> (notifications_row \<times> string option) list" where
  "left_join_grouped d = map (\<lambda>r. (r, group_concat (whos_of d r))) (notifications d)"

definition inner_join_grouped :: "database \<Rightarrow> (notifications_row \<times> string option) list" where
  "inner_join_grouped d =
     map (\<lambda>r. (r, group_concat (whos_of d r)))
       (filter (\<lambda>r. list_ex (\<lambda>w. key_of_who w = key_of_row r) (notifications_who d))
          (notifications d))"

text \<open>
  \<^verbatim>\<open>ORDER BY n.`seen` ASC, n.`when` DESC\<close> and \<^verbatim>\<open>ORDER BY n.`when` DESC\<close>. SQL leaves the
  order of rows with equal sort keys open; the model keeps them in table order.
\<close>

definition order_hot :: "(notifications_row \<times> string option) list \<Rightarrow> (notifications_row \<times> string option) list" where
  "order_hot rs = sort_key (\<lambda>p. (r_seen (fst p), - r_when (fst p))) rs"

definition order_when_desc :: "(notifications_row \<times> string option) list \<Rightarrow> (notifications_row \<times> string option) list" where
  "order_when_desc rs = sort_key (\<lambda>p. - r_when (fst p)) rs"

section \<open>The methods of SqliteStorageBackend\<close>

subsection \<open>Write path\<close>

definition row_of :: "notification \<Rightarrow> notifications_row" where
  "row_of n =
     \<lparr>r_what = n_what n, r_when = n_when n, r_where = n_where n, r_seen = n_seen n,
      r_gatherer = n_gatherer n, r_info = n_info n\<rparr>"

definition who_row_of :: "notification \<Rightarrow> string \<Rightarrow> who_row" where
  "who_row_of n who = \<lparr>w_what = n_what n, w_when = n_when n, w_where = n_where n, w_who = who\<rparr>"

definition notificationExist :: "notification \<Rightarrow> database \<Rightarrow> bool" where
  "notificationExist n d =
     (0 < length (filter (\<lambda>r. r_what r = n_what n \<and> r_where r = n_where n \<and>
                                r_info r = n_info n \<and> \<not> r_seen r) (notifications d)))"

text \<open>
  The loop of \<^verbatim>\<open>_updateNotification\<close>: each actor row is inserted under the timestamp of
  the notification passed in; an \<^verbatim>\<open>IntegrityError\<close> is caught per actor.
\<close>

fun update_loop :: "notification \<Rightarrow> string list \<Rightarrow> database \<Rightarrow> unit outcome \<times> database" where
  "update_loop n [] d = (Return (), d)"
| "update_loop n (who # rest) d =
     (case insert_notifications_who (who_row_of n who) d of
        Inr d' \<Rightarrow> update_loop n rest d'
      | Inl e \<Rightarrow> if e = IntegrityError then update_loop n rest d else (Raise e, d))"

text \<open>
  \<^verbatim>\<open>_updateNotification\<close> first selects \<^verbatim>\<open>when\<close> of an unseen row with the same what and
  where and subscripts the fetched row (a \<^verbatim>\<open>TypeError\<close> if there is none); the value read
  is not used.
\<close>

definition updateNotification :: "notification \<Rightarrow> database \<Rightarrow> unit outcome \<times> database" where
  "updateNotification n d =
     (case filter (\<lambda>r. r_what r = n_what n \<and> r_where r = n_where n \<and> \<not> r_seen r)
             (notifications d) of
        [] \<Rightarrow> (Raise TypeError, d)
      | r # _ \<Rightarrow> update_loop n (n_who n) d)"

text \<open>The loop of \<^verbatim>\<open>_createNotification\<close>: an error leaves the loop, the rows inserted so far stay.\<close>

fun create_loop :: "notification \<Rightarrow> string list \<Rightarrow> database \<Rightarrow> unit outcome \<times> database" where
  "create_loop n [] d = (Return (), d)"
| "create_loop n (who # rest) d =
     (case insert_notifications_who (who_row_of n who) d of
        Inr d' \<Rightarrow> create_loop n rest d'
      | Inl e \<Rightarrow> (Raise e, d))"

definition createNotification :: "notification \<Rightarrow> database \<Rightarrow> unit outcome \<times> database" where
  "createNotification n d =
     (case insert_notifications (row_of n) d of
        Inl e \<Rightarrow> (Raise e, d)
      | Inr d' \<Rightarrow> create_loop n (n_who n) d')"

definition storeNotification :: "notification \<Rightarrow> backend \<Rightarrow> unit outcome \<times> backend" where
  "storeNotification n b =
     (case db b of
        None \<Rightarrow> (Return (), b)
      | Some d \<Rightarrow>
          (case (if notificationExist n d then updateNotification n d
                 else createNotification n d) of
             (Return u, d') \<Rightarrow> (Return (), b\<lparr>db := Some d'\<rparr>)
           | (Raise e, d') \<Rightarrow>
               if e = IntegrityError then (Return (), b\<lparr>db := Some d'\<rparr>)
               else (Raise e, b\<lparr>db := Some d'\<rparr>)))"

definition removeNotification :: "notification \<Rightarrow> backend \<Rightarrow> unit outcome \<times> backend" where
  "removeNotification n b =
     (case db b of
        None \<Rightarrow> (Return (), b)
      | Some d \<Rightarrow>
          (Return (),
           b\<lparr>db := Some (delete_notifications
                           (\<lambda>r. r_what r = n_what n \<and> r_when r = n_when n \<and> r_where r = n_where n)
                           d)\<rparr>))"

subsection \<open>Read path\<close>

definition createNotificationFromResult :: "notifications_row \<times> string option \<Rightarrow> notification" where
  "createNotificationFromResult result =
     \<lparr>n_what = r_what (fst result), n_where = r_where (fst result),
      n_when = r_when (fst result),
      n_who = (case snd result of None \<Rightarrow> [] | Some s \<Rightarrow> split s),
      n_gatherer = r_gatherer (fst result), n_seen = r_seen (fst result),
      n_info = r_info (fst result)\<rparr>"

definition getHotNotifications :: "backend \<Rightarrow> notification list outcome" where
  "getHotNotifications b =
     (case db b of
        None \<Rightarrow> Return []
      | Some d \<Rightarrow>
          Return (map createNotificationFromResult (take 5 (order_hot (left_join_grouped d)))))"

definition getAllNotifications :: "backend \<Rightarrow> notification list outcome" where
  "getAllNotifications b =
     (case db b of
        None \<Rightarrow> Return []
      | Some d \<Rightarrow>
          Return (map createNotificationFromResult (order_when_desc (inner_join_grouped d))))"

definition getUnseenNotifications :: "backend \<Rightarrow> notification list outcome" where
  "getUnseenNotifications b =
     (case db b of
        None \<Rightarrow> Return []
      | Some d \<Rightarrow>
          Return (map createNotificationFromResult
                    (order_when_desc (filter (\<lambda>p. \<not> r_seen (fst p)) (inner_join_grouped d)))))"

definition setSeen :: "string option \<Rightarrow> backend \<Rightarrow> unit outcome \<times> backend" where
  "setSeen path b =
     (case db b of
        None \<Rightarrow> (Raise AttributeError, b)
      | Some d \<Rightarrow>
          (case path of
             None \<Rightarrow> (Return (), b\<lparr>db := Some (update_seen (\<lambda>r. True) d)\<rparr>)
           | Some p \<Rightarrow> (Return (), b\<lparr>db := Some (update_seen (\<lambda>r. r_where r = p) d)\<rparr>)))"

text \<open>\<^verbatim>\<open>now\<close> is the reading of the clock, in epoch seconds; \<^verbatim>\<open>timedelta(7)\<close> is seven days.\<close>

definition week :: int where
  "week = 7 * 86400"

definition clean :: "int \<Rightarrow> backend \<Rightarrow> unit outcome \<times> backend" where
  "clean now b =
     (let timestamp = now - week in
      case db b of
        None \<Rightarrow> (Raise AttributeError, b)
      | Some d \<Rightarrow>
          (case remove_from_notifications timestamp d of
             Inl e \<Rightarrow> (Raise e, b)
           | Inr d' \<Rightarrow> (Return (), b\<lparr>db := Some d'\<rparr>)))"

definition getUnseenCount :: "backend \<Rightarrow> nat outcome" where
  "getUnseenCount b =
     (case db b of
        None \<Rightarrow> Return 0
      | Some d \<Rightarrow> Return (length (filter (\<lambda>r. \<not> r_seen r) (notifications d))))"

text \<open>
  The body of the \<^verbatim>\<open>try\<close> of \<^verbatim>\<open>getLastNotificationTime\<close>: \<^verbatim>\<open>self.db.execute\<close> on \<^verbatim>\<open>None\<close>
  raises \<^verbatim>\<open>AttributeError\<close>, and subscripting the \<^verbatim>\<open>None\<close> that \<^verbatim>\<open>fetchone\<close> returns on an
  empty table raises \<^verbatim>\<open>TypeError\<close>. The bare \<^verbatim>\<open>except\<close> catches both.
\<close>

definition last_when :: "backend \<Rightarrow> int outcome" where
  "last_when b =
     (case db b of
        None \<Rightarrow> Raise AttributeError
      | Some d \<Rightarrow>
          (case sort_key (\<lambda>r. - r_when r) (notifications d) of
             [] \<Rightarrow> Raise TypeError
           | r # _ \<Rightarrow> Return (r_when r)))"

definition getLastNotificationTime :: "int \<Rightarrow> backend \<Rightarrow> int" where
  "getLastNotificationTime now b =
     (case last_when b of Return lastTime \<Rightarrow> lastTime | Raise e \<Rightarrow> now - week)"

subsection \<open>Subscriptions\<close>

text \<open>
  \<^verbatim>\<open>saveSubscription\<close> reads \<^verbatim>\<open>subscription.wants\<close> first, so a \<^verbatim>\<open>None\<close> argument raises
  \<^verbatim>\<open>AttributeError\<close> before the later tests \<^verbatim>\<open>subscription is None\<close> are reached. The
  \<^verbatim>\<open>try\<close> with its \<^verbatim>\<open>except\<close> clause, which catches \<^verbatim>\<open>IntegrityError\<close> only, is \<open>save_row\<close>. \<^verbatim>\<open>not subscription.wants\<close> holds for \<^verbatim>\<open>False\<close> and
  for \<^verbatim>\<open>None\<close>; the pattern of the \<^verbatim>\<open>LIKE\<close> is \<^verbatim>\<open>where\<close> followed by \<^verbatim>\<open>%\<close>.
\<close>

definition save_row :: "subscription \<Rightarrow> database \<Rightarrow> error + database" where
  "save_row s d =
     (case s_wants s of
        None \<Rightarrow> Inr (delete_subscriptions (s_where s) d)
      | Some w \<Rightarrow>
          (case insert_subscriptions \<lparr>sub_where = s_where s, sub_wants = w\<rparr> d of
             Inr d' \<Rightarrow> Inr d'
           | Inl e \<Rightarrow>
               if e = IntegrityError then Inr (update_subscriptions w (s_where s) d)
               else Inl e))"

definition saveSubscription :: "subscription option \<Rightarrow> backend \<Rightarrow> unit outcome \<times> backend" where
  "saveSubscription subscription b =
     (case subscription of
        None \<Rightarrow> (Raise AttributeError, b)
      | Some s \<Rightarrow>
          (case db b of
             None \<Rightarrow> (Raise AttributeError, b)
           | Some d \<Rightarrow>
               (case save_row s d of
                  Inl e \<Rightarrow> (Raise e, b)
                | Inr d1 \<Rightarrow>
                    (let d2 = (if s_wants s = Some True then d1
                               else delete_notifications
                                      (\<lambda>r. like (s_where s @ ''%'') (r_where r)) d1);
                         ev = (if s_wants s = Some True then SubscribedEvent (s_where s)
                               else BlacklistedEvent (s_where s))
                     in (Return (), b\<lparr>db := Some d2, events := events b @ [ev]\<rparr>)))))"

definition createSubscriptionFromResult :: "subscriptions_row \<Rightarrow> subscription" where
  "createSubscriptionFromResult result =
     \<lparr>s_where = sub_where result, s_wants = Some (sub_wants result)\<rparr>"

definition getSubscription :: "string \<Rightarrow> backend \<Rightarrow> subscription option outcome" where
  "getSubscription wh b =
     (case db b of
        None \<Rightarrow> Raise AttributeError
      | Some d \<Rightarrow>
          (case filter (\<lambda>x. sub_where x = wh) (subscriptions d) of
             [] \<Rightarrow> Return None
           | x # _ \<Rightarrow> Return (Some (createSubscriptionFromResult x))))"

definition getSubscriptions :: "backend \<Rightarrow> subscription list outcome" where
  "getSubscriptions b =
     (case db b of
        None \<Rightarrow> Raise AttributeError
      | Some d \<Rightarrow> Return (map createSubscriptionFromResult (subscriptions d)))"

subsection \<open>Sequences of calls\<close>

text \<open>
  The public operations on the data of a session, and the backend after one of them
  (whether the call returned or raised) and after a sequence of them. The queries leave
  the backend as it is.
\<close>

datatype operation =
    StoreNotification notification
  | RemoveNotification notification
  | GetHotNotifications
  | GetAllNotifications
  | GetUnseenNotifications
  | SetSeen "string option"
  | GetUnseenCount
  | GetLastNotificationTime int
  | Clean int
  | SaveSubscription "subscription option"
  | GetSubscription string
  | GetSubscriptions

fun perform :: "operation \<Rightarrow> backend \<Rightarrow> backend" where
  "perform (StoreNotification n) b = snd (storeNotification n b)"
| "perform (RemoveNotification n) b = snd (removeNotification n b)"
| "perform (SetSeen path) b = snd (setSeen path b)"
| "perform (Clean now) b = snd (clean now b)"
| "perform (SaveSubscription s) b = snd (saveSubscription s b)"
| "perform GetHotNotifications b = b"
| "perform GetAllNotifications b = b"
| "perform GetUnseenNotifications b = b"
| "perform GetUnseenCount b = b"
| "perform (GetLastNotificationTime now) b = b"
| "perform (GetSubscription wh) b = b"
| "perform GetSubscriptions b = b"

fun run :: "operation list \<Rightarrow> backend \<Rightarrow> backend" where
  "run [] b = b"
| "run (x # xs) b = run xs (perform x b)"

section \<open>Example sessions\<close>

text \<open>A freshly initialised store, with the foreign-key pragma either way, and a session on it.\<close>

definition empty_db :: "bool \<Rightarrow> database" where
  "empty_db fk =
     \<lparr>notifications = [], notifications_who = [], subscriptions = [], foreign_keys = fk\<rparr>"

definition open_backend :: "bool \<Rightarrow> backend" where
  "open_backend fk = \<lparr>db = Some (empty_db fk), events = []\<rparr>"

definition closed_backend :: backend where
  "closed_backend = \<lparr>db = None, events = []\<rparr>"

text \<open>An unseen notification "edited /a" at a given time by given actors.\<close>

definition edit_at :: "int \<Rightarrow> string list \<Rightarrow> notification" where
  "edit_at t who =
     \<lparr>n_what = ''edited'', n_where = ''/a'', n_when = t, n_who = who,
      n_gatherer = ''g'', n_seen = False, n_info = ''null''\<rparr>"

text \<open>A session holding one notification of time 0, far older than a week at time 1000000.\<close>

definition stale_backend :: backend where
  "stale_backend = run [StoreNotification (edit_at 0 [''bob''])] (open_backend False)"

text \<open>A store of two notifications, of times 100 and 300.\<close>

definition two_rows_db :: database where
  "two_rows_db =
     \<lparr>notifications = [row_of (edit_at 100 [''bob'']), row_of (edit_at 300 [''bob''])],
      notifications_who = [who_row_of (edit_at 100 [''bob'']) ''bob'',
                           who_row_of (edit_at 300 [''bob'']) ''bob''],
      subscriptions = [], foreign_keys = False\<rparr>"

section \<open>Invariants\<close>

text \<open>
  The primary key of \<^verbatim>\<open>notifications\<close>, which SQLite maintains, and the invariant of the
  specification that every notification row has an actor row. \<open>carries_actor\<close> holds of
  every operation but a \<^verbatim>\<open>storeNotification\<close> whose \<^verbatim>\<open>who\<close> list is empty.
\<close>

definition pk_distinct :: "database \<Rightarrow> bool" where
  "pk_distinct d = distinct (map key_of_row (notifications d))"

definition every_row_has_actor :: "database \<Rightarrow> bool" where
  "every_row_has_actor d =
     list_all (\<lambda>r. list_ex (\<lambda>w. key_of_who w = key_of_row r) (notifications_who d))
       (notifications d)"

definition session_invariant :: "backend \<Rightarrow> bool" where
  "session_invariant b =
     (case db b of None \<Rightarrow> True | Some d \<Rightarrow> pk_distinct d \<and> every_row_has_actor d)"

definition carries_actor :: "operation \<Rightarrow> bool" where
  "carries_actor x = (case x of StoreNotification n \<Rightarrow> n_who n \<noteq> [] | _ \<Rightarrow> True)"

text \<open>The key (what, when, where) of a notification is already that of a stored row.\<close>

definition key_taken :: "notification \<Rightarrow> database \<Rightarrow> bool" where
  "key_taken n d = list_ex (\<lambda>x. key_of_row x = key_of_row (row_of n)) (notifications d)"

section \<open>Further example sessions\<close>

text \<open>
  A session whose only notification, bob's edit of /a at time 100, has been marked seen,
  and a sequence of operations of every kind that changes the store.
\<close>

definition seen_backend :: backend where
  "seen_backend = run [StoreNotification (edit_at 100 [''bob'']), SetSeen None] (open_backend False)"

definition seen_row :: notifications_row where
  "seen_row = (row_of (edit_at 100 [''bob'']))\<lparr>r_seen := True\<rparr>"

definition seen_db :: database where
  "seen_db =
     \<lparr>notifications = [seen_row],
      notifications_who = [who_row_of (edit_at 100 [''bob'']) ''bob''],
      subscriptions = [], foreign_keys = False\<rparr>"

definition mixed_ops :: "operation list" where
  "mixed_ops =
     [StoreNotification (edit_at 100 [''bob'']), StoreNotification (edit_at 100 [''alice'']),
      SetSeen None, StoreNotification (edit_at 200 [''carol'', ''carol'']),
      SaveSubscription (Some \<lparr>s_where = ''/x'', s_wants = Some False\<rparr>),
      RemoveNotification (edit_at 100 []), Clean 1000000, GetHotNotifications]"

section \<open>Hot order and more example stores\<close>

text \<open>
  \<open>hot_before x r\<close>: the row \<open>x\<close> stands at or before the row \<open>r\<close> in the order of
  \<^verbatim>\<open>getHotNotifications\<close>, unseen rows first and, among rows of the same seen flag, the
  newer first.
\<close>

definition hot_before :: "notifications_row \<Rightarrow> notifications_row \<Rightarrow> bool" where
  "hot_before x r = (if r_seen x = r_seen r then r_when r \<le> r_when x else r_seen r)"

text \<open>
  A notification "edited" of a given location, time, seen flag and actors. The stores
  below are those the sessions after them reach from an empty store: one of six
  notifications of mixed seen flags, of which the oldest seen one (\<^verbatim>\<open>/ghost\<close>) was stored
  with no actor; one of two where the actor-less one is unseen; and one with
  notifications of four locations and a subscription to \<^verbatim>\<open>/a\<close>.
\<close>

definition note_at :: "string \<Rightarrow> int \<Rightarrow> bool \<Rightarrow> string list \<Rightarrow> notification" where
  "note_at wh t seen who =
     \<lparr>n_what = ''edited'', n_where = wh, n_when = t, n_who = who,
      n_gatherer = ''g'', n_seen = seen, n_info = ''null''\<rparr>"

definition hot_db :: database where
  "hot_db =
     \<lparr>notifications =
        [row_of (note_at ''/ghost'' 1 True []), row_of (note_at ''/p2'' 20 True []),
         row_of (note_at ''/p4'' 40 True []), row_of (note_at ''/p1'' 10 False []),
         row_of (note_at ''/p3'' 30 False []), row_of (note_at ''/p5'' 50 False [])],
      notifications_who =
        [who_row_of (note_at ''/p2'' 20 True []) ''bob'', who_row_of (note_at ''/p4'' 40 True []) ''bob'',
         who_row_of (note_at ''/p1'' 10 False []) ''bob'', who_row_of (note_at ''/p3'' 30 False []) ''bob'',
         who_row_of (note_at ''/p5'' 50 False []) ''bob'', who_row_of (note_at ''/p5'' 50 False []) ''alice''],
      subscriptions = [], foreign_keys = False\<rparr>"

definition ghost_db :: database where
  "ghost_db =
     \<lparr>notifications = [row_of (note_at ''/p1'' 10 False []), row_of (note_at ''/ghost'' 1 False [])],
      notifications_who = [who_row_of (note_at ''/p1'' 10 False []) ''bob''],
      subscriptions = [], foreign_keys = False\<rparr>"

definition paths_backend :: backend where
  "paths_backend =
     run [StoreNotification (note_at ''/a/b'' 10 False [''bob'']),
          StoreNotification (note_at ''/a/c'' 20 False [''bob'']),
          StoreNotification (note_at ''/b'' 30 False [''bob'']),
          StoreNotification (note_at ''/axb'' 40 False [''bob'']),
          SaveSubscription (Some \<lparr>s_where = ''/a'', s_wants = Some True\<rparr>)]
       (open_backend False)"

definition paths_db :: database where
  "paths_db =
     \<lparr>notifications =
        [row_of (note_at ''/a/b'' 10 False []), row_of (note_at ''/a/c'' 20 False []),
         row_of (note_at ''/b'' 30 False []), row_of (note_at ''/axb'' 40 False [])],
      notifications_who =
        [who_row_of (note_at ''/a/b'' 10 False []) ''bob'', who_row_of (note_at ''/a/c'' 20 False []) ''bob'',
         who_row_of (note_at ''/b'' 30 False []) ''bob'', who_row_of (note_at ''/axb'' 40 False []) ''bob''],
      subscriptions = [\<lparr>sub_where = ''/a'', sub_wants = True\<rparr>], foreign_keys = False\<rparr>"

definition hot_backend :: backend where
  "hot_backend =
     run [StoreNotification (note_at ''/ghost'' 1 False []),
          StoreNotification (note_at ''/p2'' 20 False [''bob'']),
          StoreNotification (note_at ''/p4'' 40 False [''bob'']),
          SetSeen None,
          StoreNotification (note_at ''/p1'' 10 False [''bob'']),
          StoreNotification (note_at ''/p3'' 30 False [''bob'']),
          StoreNotification (note_at ''/p5'' 50 False [''bob'', ''alice''])]
       (open_backend False)"

definition ghost_backend :: backend where
  "ghost_backend =
     run [StoreNotification (note_at ''/p1'' 10 False [''bob'']),
          StoreNotification (note_at ''/ghost'' 1 False [])]
       (open_backend False)"

section \<open>Properties\<close>

subsection \<open>Merging (C1)\<close>

text \<open>
  C1 (the code departs from it). The claim: a second notification with the same what,
  where and info as a stored unseen one merges into it, the actor sets united, whatever
  the timestamp of the second. The code inserts the actor rows of the second
  notification under the second notification's own timestamp, not under the timestamp
  of the stored row. Here bob edits /a at time 100 and alice at time 200: the stored event
  keeps bob alone. With foreign keys off the row for alice is stored under the key
  (edited, 200, /a), which no notification row has; with foreign keys on it is refused
  and the error swallowed.
\<close>

theorem merge_other_timestamp_drops_actor:
  "getAllNotifications
     (run [StoreNotification (edit_at 100 [''bob'']), StoreNotification (edit_at 200 [''alice''])]
        (open_backend False))
     = Return [edit_at 100 [''bob'']] \<and>
   getAllNotifications
     (run [StoreNotification (edit_at 100 [''bob'']), StoreNotification (edit_at 200 [''alice''])]
        (open_backend True))
     = Return [edit_at 100 [''bob'']] \<and>
   getHotNotifications
     (run [StoreNotification (edit_at 100 [''bob'']), StoreNotification (edit_at 200 [''alice''])]
        (open_backend False))
     = Return [edit_at 100 [''bob'']]"
  by code_simp

text \<open>With equal timestamps the merge does unite the actors.\<close>

lemma merge_same_timestamp_unites:
  "getAllNotifications
     (run [StoreNotification (edit_at 100 [''bob'']), StoreNotification (edit_at 100 [''alice''])]
        (open_backend False))
     = Return [edit_at 100 [''alice'', ''bob'']]"
  by code_simp

subsection \<open>Retention (C2)\<close>

text \<open>
  C2 (the code departs from it). The claim: \<^verbatim>\<open>clean()\<close> deletes the notifications older than
  seven days, keeps the others and does not raise. The statement \<^verbatim>\<open>clean\<close> executes is not
  SQL, so every call raises and the store is as before: on the session holding a
  notification of time 0, \<^verbatim>\<open>clean\<close> at time 1000000 raises \<^verbatim>\<open>OperationalError\<close> and the
  notification, older than a week, is still there; and no call on any backend returns.
\<close>

theorem clean_raises_and_keeps:
  "n_when (edit_at 0 [''bob'']) < 1000000 - week \<and>
   clean 1000000 stale_backend = (Raise OperationalError, stale_backend) \<and>
   getAllNotifications (snd (clean 1000000 stale_backend)) = Return [edit_at 0 [''bob'']] \<and>
   fst (clean now b) \<noteq> Return () \<and> snd (clean now b) = b"
proof -
  have "fst (clean now b) \<noteq> Return () \<and> snd (clean now b) = b"
    by (simp add: clean_def remove_from_notifications_def Let_def split: option.splits)
  moreover have "n_when (edit_at 0 [''bob'']) < 1000000 - week"
    by (simp add: edit_at_def week_def)
  moreover have "clean 1000000 stale_backend = (Raise OperationalError, stale_backend)"
    by code_simp
  moreover have "getAllNotifications (snd (clean 1000000 stale_backend)) = Return [edit_at 0 [''bob'']]"
    by code_simp
  ultimately show ?thesis by simp
qed

subsection \<open>Closed sessions (C3)\<close>

text \<open>
  Seven of the twelve operations test \<^verbatim>\<open>self.db is None\<close> (or, for
  \<^verbatim>\<open>getLastNotificationTime\<close>, catch every exception) and degrade on a closed session.
\<close>

lemma closed_session_guarded:
  "storeNotification n (b\<lparr>db := None\<rparr>) = (Return (), b\<lparr>db := None\<rparr>) \<and>
   removeNotification n (b\<lparr>db := None\<rparr>) = (Return (), b\<lparr>db := None\<rparr>) \<and>
   getHotNotifications (b\<lparr>db := None\<rparr>) = Return [] \<and>
   getAllNotifications (b\<lparr>db := None\<rparr>) = Return [] \<and>
   getUnseenNotifications (b\<lparr>db := None\<rparr>) = Return [] \<and>
   getUnseenCount (b\<lparr>db := None\<rparr>) = Return 0 \<and>
   getLastNotificationTime now (b\<lparr>db := None\<rparr>) = now - week"
  by (simp add: storeNotification_def removeNotification_def getHotNotifications_def
      getAllNotifications_def getUnseenNotifications_def getUnseenCount_def
      getLastNotificationTime_def last_when_def)

text \<open>
  C3 (the code departs from it). The claim: on a closed session no public operation
  raises. \<^verbatim>\<open>setSeen\<close>, \<^verbatim>\<open>clean\<close>, \<^verbatim>\<open>saveSubscription\<close>, \<^verbatim>\<open>getSubscription\<close> and
  \<^verbatim>\<open>getSubscriptions\<close> call \<^verbatim>\<open>self.db.execute\<close> with no test of \<^verbatim>\<open>self.db\<close>, so each
  raises \<^verbatim>\<open>AttributeError\<close> on every closed backend, whatever its arguments.
\<close>

theorem closed_session_raises:
  "setSeen path (b\<lparr>db := None\<rparr>) = (Raise AttributeError, b\<lparr>db := None\<rparr>) \<and>
   clean now (b\<lparr>db := None\<rparr>) = (Raise AttributeError, b\<lparr>db := None\<rparr>) \<and>
   saveSubscription s (b\<lparr>db := None\<rparr>) = (Raise AttributeError, b\<lparr>db := None\<rparr>) \<and>
   getSubscription wh (b\<lparr>db := None\<rparr>) = Raise AttributeError \<and>
   getSubscriptions (b\<lparr>db := None\<rparr>) = Raise AttributeError"
  by (simp add: setSeen_def clean_def saveSubscription_def getSubscription_def
      getSubscriptions_def Let_def split: option.splits)

subsection \<open>Time of the last notification (C9)\<close>

lemma sort_key_Nil_iff: "sort_key f xs = [] \<longleftrightarrow> xs = []"
  by (metis length_sort list.size(3) length_0_conv)

lemma hd_sort_key_neg_greatest:
  assumes "sort_key (\<lambda>r. - f r) xs = y # ys"
  shows "y \<in> set xs \<and> (\<forall>x \<in> set xs. (f x :: int) \<le> f y)"
proof -
  have s: "sorted (map (\<lambda>r. - f r) (y # ys))"
    using assms sorted_sort_key[of "\<lambda>r. - f r" xs] by simp
  have m: "set (y # ys) = set xs"
    using assms set_sort[of "\<lambda>r. - f r" xs] by simp
  from s have "\<forall>x \<in> set (y # ys). f x \<le> f y" by auto
  with m show ?thesis by (metis list.set_intros(1))
qed

text \<open>
  C9. On a closed session (the read fails) and on an empty store
  \<^verbatim>\<open>getLastNotificationTime\<close> returns the clock less seven days, which is not the clock; on
  a store with notifications it returns the greatest timestamp stored. The function
  returns a value in every case.
\<close>

theorem getLastNotificationTime_default_or_latest:
  "(db b = None \<longrightarrow> getLastNotificationTime now b = now - 7 * 86400) \<and>
   (\<forall>d. db b = Some d \<and> notifications d = [] \<longrightarrow>
      getLastNotificationTime now b = now - 7 * 86400) \<and>
   now - 7 * 86400 \<noteq> now \<and>
   (\<forall>d. db b = Some d \<and> notifications d \<noteq> [] \<longrightarrow>
      getLastNotificationTime now b \<in> r_when ` set (notifications d) \<and>
      (\<forall>r \<in> set (notifications d). r_when r \<le> getLastNotificationTime now b))"
proof (intro conjI allI impI)
  show "now - 7 * 86400 \<noteq> now" by simp
next
  assume "db b = None"
  then show "getLastNotificationTime now b = now - 7 * 86400"
    by (simp add: getLastNotificationTime_def last_when_def week_def)
next
  fix d assume "db b = Some d \<and> notifications d = []"
  then show "getLastNotificationTime now b = now - 7 * 86400"
    by (simp add: getLastNotificationTime_def last_when_def week_def)
next
  fix d assume a: "db b = Some d \<and> notifications d \<noteq> []"
  then obtain y ys where e: "sort_key (\<lambda>r. - r_when r) (notifications d) = y # ys"
    by (metis sort_key_Nil_iff list.exhaust)
  have g: "getLastNotificationTime now b = r_when y"
    using a e by (simp add: getLastNotificationTime_def last_when_def)
  from hd_sort_key_neg_greatest[OF e] g
  show "getLastNotificationTime now b \<in> r_when ` set (notifications d)" by auto
  from hd_sort_key_neg_greatest[OF e] g
  show "\<forall>r \<in> set (notifications d). r_when r \<le> getLastNotificationTime now b" by auto
qed

theorem getLastNotificationTime_witness:
  "db closed_backend = None \<and>
   getLastNotificationTime 1000000 closed_backend = 1000000 - 7 * 86400 \<and>
   db (open_backend False) = Some (empty_db False) \<and> notifications (empty_db False) = [] \<and>
   getLastNotificationTime 1000000 (open_backend False) = 1000000 - 7 * 86400 \<and>
   notifications two_rows_db \<noteq> [] \<and>
   getLastNotificationTime 1000000 \<lparr>db = Some two_rows_db, events = []\<rparr> = 300"
proof -
  have c: "db closed_backend = None" by (simp add: closed_backend_def)
  have e: "db (open_backend False) = Some (empty_db False) \<and> notifications (empty_db False) = []"
    by (simp add: open_backend_def empty_db_def)
  have t: "db \<lparr>db = Some two_rows_db, events = []\<rparr> = Some two_rows_db \<and> notifications two_rows_db \<noteq> []"
    by (simp add: two_rows_db_def)
  have n: "notifications two_rows_db = [row_of (edit_at 100 [''bob'']), row_of (edit_at 300 [''bob''])]"
    by (simp add: two_rows_db_def)
  from getLastNotificationTime_default_or_latest[of closed_backend 1000000] c
  have 1: "getLastNotificationTime 1000000 closed_backend = 1000000 - 7 * 86400" by blast
  from getLastNotificationTime_default_or_latest[of "open_backend False" 1000000] e
  have 2: "getLastNotificationTime 1000000 (open_backend False) = 1000000 - 7 * 86400" by blast
  from getLastNotificationTime_default_or_latest[of "\<lparr>db = Some two_rows_db, events = []\<rparr>" 1000000] t
  have 3: "getLastNotificationTime 1000000 \<lparr>db = Some two_rows_db, events = []\<rparr>
             \<in> r_when ` set (notifications two_rows_db) \<and>
           (\<forall>r \<in> set (notifications two_rows_db).
              r_when r \<le> getLastNotificationTime 1000000 \<lparr>db = Some two_rows_db, events = []\<rparr>)"
    by blast
  from 3 have "getLastNotificationTime 1000000 \<lparr>db = Some two_rows_db, events = []\<rparr> = 300"
    unfolding n by (auto simp: row_of_def edit_at_def)
  with c e t 1 2 show ?thesis by simp
qed

subsection \<open>Events of saveSubscription (C10)\<close>

text \<open>
  C10, counterexample. On a closed session \<^verbatim>\<open>saveSubscription\<close> raises \<^verbatim>\<open>AttributeError\<close> at
  its first statement, before \<^verbatim>\<open>event.notify\<close>: no event is emitted, whatever \<^verbatim>\<open>wants\<close> is.
\<close>

theorem saveSubscription_closed_silent:
  "saveSubscription (Some \<lparr>s_where = ''/a'', s_wants = None\<rparr>) closed_backend
     = (Raise AttributeError, closed_backend) \<and>
   events (snd (saveSubscription (Some \<lparr>s_where = ''/a'', s_wants = None\<rparr>) closed_backend)) = [] \<and>
   events (snd (saveSubscription (Some \<lparr>s_where = ''/a'', s_wants = Some False\<rparr>) closed_backend)) = [] \<and>
   events (snd (saveSubscription (Some \<lparr>s_where = ''/a'', s_wants = Some True\<rparr>) closed_backend)) = []"
  by (simp add: saveSubscription_def closed_backend_def)

text \<open>
  C10, as amended. On an open session \<^verbatim>\<open>saveSubscription\<close> returns and emits exactly one
  event for the location of the subscription: \<^verbatim>\<open>BlacklistedEvent\<close> when \<^verbatim>\<open>wants\<close> is \<^verbatim>\<open>None\<close>,
  just as when it is \<^verbatim>\<open>False\<close>, and \<^verbatim>\<open>SubscribedEvent\<close> when it is \<^verbatim>\<open>True\<close>; on an open
  session no value of \<^verbatim>\<open>wants\<close> leaves the events as they were.
\<close>

theorem saveSubscription_emits:
  assumes "db b = Some d"
  shows "fst (saveSubscription (Some s) b) = Return () \<and>
         (s_wants s = None \<longrightarrow>
            events (snd (saveSubscription (Some s) b)) = events b @ [BlacklistedEvent (s_where s)]) \<and>
         (s_wants s = Some False \<longrightarrow>
            events (snd (saveSubscription (Some s) b)) = events b @ [BlacklistedEvent (s_where s)]) \<and>
         (s_wants s = Some True \<longrightarrow>
            events (snd (saveSubscription (Some s) b)) = events b @ [SubscribedEvent (s_where s)]) \<and>
         events (snd (saveSubscription (Some s) b)) \<noteq> events b"
  using assms
  by (simp add: saveSubscription_def save_row_def insert_subscriptions_def Let_def
      split: option.splits sum.splits)

theorem saveSubscription_emits_witness:
  "db (open_backend False) = Some (empty_db False) \<and>
   fst (saveSubscription (Some \<lparr>s_where = ''/a'', s_wants = None\<rparr>) (open_backend False)) = Return () \<and>
   events (snd (saveSubscription (Some \<lparr>s_where = ''/a'', s_wants = None\<rparr>) (open_backend False)))
     = [BlacklistedEvent ''/a'']"
proof -
  have o: "db (open_backend False) = Some (empty_db False)" by (simp add: open_backend_def)
  have ev: "events (open_backend False) = []" by (simp add: open_backend_def)
  from saveSubscription_emits[OF o, of "\<lparr>s_where = ''/a'', s_wants = None\<rparr>"] o ev
  show ?thesis by simp
qed

subsection \<open>Every stored notification has an actor (C4)\<close>

lemma key_of_who_row_of: "key_of_who (who_row_of n w) = key_of_row (row_of n)"
  by (simp add: key_of_who_def key_of_row_def who_row_of_def row_of_def)

lemma insert_notifications_who_Inr:
  "insert_notifications_who w d = Inr d' \<Longrightarrow>
     d' = d\<lparr>notifications_who := notifications_who d @ [w]\<rparr>"
  by (simp add: insert_notifications_who_def split: if_splits)

lemma insert_notifications_who_Inl:
  "insert_notifications_who w d = Inl e \<Longrightarrow>
     e = IntegrityError \<and>
     (w \<in> set (notifications_who d) \<or>
      foreign_keys d \<and> key_of_who w \<notin> key_of_row ` set (notifications d))"
  by (auto simp add: insert_notifications_who_def list_ex_iff split: if_splits)

lemma update_loop_appends:
  "update_loop n ws d = (out, d') \<Longrightarrow>
     \<exists>extra. d' = d\<lparr>notifications_who := notifications_who d @ extra\<rparr> \<and>
             set extra \<subseteq> who_row_of n ` set ws \<and> out = Return ()"
proof (induction ws arbitrary: d)
  case Nil
  then show ?case by (intro exI[of _ "[]"]) simp
next
  case (Cons w ws)
  show ?case
  proof (cases "insert_notifications_who (who_row_of n w) d")
    case (Inl e)
    then have "e = IntegrityError" by (simp add: insert_notifications_who_Inl)
    with Inl Cons.prems have "update_loop n ws d = (out, d')" by simp
    from Cons.IH[OF this] show ?thesis by auto
  next
    case (Inr d1)
    then have d1: "d1 = d\<lparr>notifications_who := notifications_who d @ [who_row_of n w]\<rparr>"
      by (rule insert_notifications_who_Inr)
    from Inr Cons.prems have "update_loop n ws d1 = (out, d')" by simp
    from Cons.IH[OF this] obtain extra where
      e: "d' = d1\<lparr>notifications_who := notifications_who d1 @ extra\<rparr>"
         "set extra \<subseteq> who_row_of n ` set ws" "out = Return ()" by blast
    show ?thesis
      by (intro exI[of _ "who_row_of n w # extra"]) (use e d1 in auto)
  qed
qed

lemma create_loop_appends:
  "create_loop n ws d = (out, d') \<Longrightarrow>
     \<exists>extra. d' = d\<lparr>notifications_who := notifications_who d @ extra\<rparr> \<and>
             set extra \<subseteq> who_row_of n ` set ws"
proof (induction ws arbitrary: d)
  case Nil
  then show ?case by (intro exI[of _ "[]"]) simp
next
  case (Cons w ws)
  show ?case
  proof (cases "insert_notifications_who (who_row_of n w) d")
    case (Inl e)
    with Cons.prems have "d' = d" by simp
    then show ?thesis by (intro exI[of _ "[]"]) simp
  next
    case (Inr d1)
    then have d1: "d1 = d\<lparr>notifications_who := notifications_who d @ [who_row_of n w]\<rparr>"
      by (rule insert_notifications_who_Inr)
    from Inr Cons.prems have "create_loop n ws d1 = (out, d')" by simp
    from Cons.IH[OF this] obtain extra where
      e: "d' = d1\<lparr>notifications_who := notifications_who d1 @ extra\<rparr>"
         "set extra \<subseteq> who_row_of n ` set ws" by blast
    show ?thesis
      by (intro exI[of _ "who_row_of n w # extra"]) (use e d1 in auto)
  qed
qed

lemma create_loop_first_actor:
  assumes "create_loop n (w # ws) d = (out, d')"
    and "key_of_row (row_of n) \<in> key_of_row ` set (notifications d)"
  shows "\<exists>x \<in> set (notifications_who d'). key_of_who x = key_of_row (row_of n)"
proof (cases "insert_notifications_who (who_row_of n w) d")
  case (Inl e)
  with assms(1) have "d' = d" by simp
  moreover from insert_notifications_who_Inl[OF Inl] assms(2)
  have "who_row_of n w \<in> set (notifications_who d)" by (simp add: key_of_who_row_of)
  ultimately show ?thesis using key_of_who_row_of by blast
next
  case (Inr d1)
  then have d1: "d1 = d\<lparr>notifications_who := notifications_who d @ [who_row_of n w]\<rparr>"
    by (rule insert_notifications_who_Inr)
  from Inr assms(1) have "create_loop n ws d1 = (out, d')" by simp
  from create_loop_appends[OF this] d1
  have "who_row_of n w \<in> set (notifications_who d')" by auto
  then show ?thesis using key_of_who_row_of by blast
qed

lemma every_row_has_actor_iff:
  "every_row_has_actor d \<longleftrightarrow>
     (\<forall>r \<in> set (notifications d). \<exists>w \<in> set (notifications_who d). key_of_who w = key_of_row r)"
  by (simp add: every_row_has_actor_def list_all_iff list_ex_iff)

lemma invariant_who_grows:
  assumes "pk_distinct d \<and> every_row_has_actor d"
  shows "pk_distinct (d\<lparr>notifications_who := notifications_who d @ extra\<rparr>) \<and>
         every_row_has_actor (d\<lparr>notifications_who := notifications_who d @ extra\<rparr>)"
  using assms by (auto simp: pk_distinct_def every_row_has_actor_iff)

lemma updateNotification_invariant:
  assumes "pk_distinct d \<and> every_row_has_actor d" "updateNotification n d = (out, d')"
  shows "pk_distinct d' \<and> every_row_has_actor d'"
proof (cases "filter (\<lambda>r. r_what r = n_what n \<and> r_where r = n_where n \<and> \<not> r_seen r) (notifications d)")
  case Nil
  with assms(2) have "d' = d" by (simp add: updateNotification_def)
  with assms(1) show ?thesis by simp
next
  case (Cons r rs)
  with assms(2) have "update_loop n (n_who n) d = (out, d')" by (simp add: updateNotification_def)
  from update_loop_appends[OF this] invariant_who_grows[OF assms(1)] show ?thesis by auto
qed

lemma createNotification_invariant:
  assumes "pk_distinct d \<and> every_row_has_actor d" "createNotification n d = (out, d')"
    "n_who n \<noteq> []"
  shows "pk_distinct d' \<and> every_row_has_actor d'"
proof (cases "insert_notifications (row_of n) d")
  case (Inl e)
  with assms(2) have "d' = d" by (simp add: createNotification_def)
  with assms(1) show ?thesis by simp
next
  case (Inr d1)
  then have d1: "d1 = d\<lparr>notifications := notifications d @ [row_of n]\<rparr>"
    and fresh: "key_of_row (row_of n) \<notin> key_of_row ` set (notifications d)"
    by (auto simp: insert_notifications_def list_ex_iff split: if_splits)
  from Inr assms(2) have cl: "create_loop n (n_who n) d1 = (out, d')"
    by (simp add: createNotification_def)
  from assms(3) obtain w ws where ww: "n_who n = w # ws" by (cases "n_who n") auto
  have "key_of_row (row_of n) \<in> key_of_row ` set (notifications d1)" using d1 by simp
  from create_loop_first_actor[OF cl[unfolded ww] this]
  have act: "\<exists>x \<in> set (notifications_who d'). key_of_who x = key_of_row (row_of n)" .
  from create_loop_appends[OF cl] obtain extra where
    e: "d' = d1\<lparr>notifications_who := notifications_who d1 @ extra\<rparr>" by blast
  have "pk_distinct d'" using assms(1) fresh e d1 by (simp add: pk_distinct_def)
  moreover have "every_row_has_actor d'"
    unfolding every_row_has_actor_iff
  proof
    fix r assume "r \<in> set (notifications d')"
    then have "r \<in> set (notifications d) \<or> r = row_of n" using e d1 by auto
    then show "\<exists>w \<in> set (notifications_who d'). key_of_who w = key_of_row r"
    proof
      assume "r \<in> set (notifications d)"
      with assms(1) obtain x where "x \<in> set (notifications_who d)" "key_of_who x = key_of_row r"
        by (auto simp: every_row_has_actor_iff)
      then show ?thesis using e d1 by auto
    next
      assume "r = row_of n" with act show ?thesis by simp
    qed
  qed
  ultimately show ?thesis by simp
qed

lemma delete_notifications_invariant:
  assumes "pk_distinct d \<and> every_row_has_actor d"
  shows "pk_distinct (delete_notifications P d) \<and> every_row_has_actor (delete_notifications P d)"
proof
  show "pk_distinct (delete_notifications P d)"
    using assms by (simp add: pk_distinct_def delete_notifications_def distinct_map_filter)
  have inj: "inj_on key_of_row (set (notifications d))"
    using assms by (simp add: pk_distinct_def distinct_map)
  show "every_row_has_actor (delete_notifications P d)"
    unfolding every_row_has_actor_iff
  proof
    fix r assume "r \<in> set (notifications (delete_notifications P d))"
    then have r: "r \<in> set (notifications d)" "\<not> P r" by (auto simp: delete_notifications_def)
    with assms obtain w where w: "w \<in> set (notifications_who d)" "key_of_who w = key_of_row r"
      by (auto simp: every_row_has_actor_iff)
    have "\<not> list_ex (\<lambda>x. P x \<and> key_of_row x = key_of_who w) (notifications d)"
    proof
      assume "list_ex (\<lambda>x. P x \<and> key_of_row x = key_of_who w) (notifications d)"
      then obtain x where "x \<in> set (notifications d)" "P x" "key_of_row x = key_of_row r"
        using w(2) by (auto simp: list_ex_iff)
      with inj r(1) have "x = r" by (auto dest: inj_onD)
      with \<open>P x\<close> r(2) show False by simp
    qed
    with w have "w \<in> set (notifications_who (delete_notifications P d))"
      by (simp add: delete_notifications_def)
    with w(2) show "\<exists>w \<in> set (notifications_who (delete_notifications P d)). key_of_who w = key_of_row r"
      by blast
  qed
qed

lemma update_seen_invariant:
  assumes "pk_distinct d \<and> every_row_has_actor d"
  shows "pk_distinct (update_seen P d) \<and> every_row_has_actor (update_seen P d)"
proof -
  have k: "key_of_row \<circ> (\<lambda>r. if P r then r\<lparr>r_seen := True\<rparr> else r) = key_of_row"
    by (auto simp: key_of_row_def fun_eq_iff)
  have "pk_distinct (update_seen P d)" using assms k by (simp add: pk_distinct_def update_seen_def)
  moreover have "every_row_has_actor (update_seen P d)"
    using assms by (auto simp: every_row_has_actor_iff update_seen_def key_of_row_def)
  ultimately show ?thesis by simp
qed

lemma subscriptions_change_invariant:
  "pk_distinct (d\<lparr>subscriptions := xs\<rparr>) = pk_distinct d \<and>
   every_row_has_actor (d\<lparr>subscriptions := xs\<rparr>) = every_row_has_actor d"
  by (simp add: pk_distinct_def every_row_has_actor_def)

lemma save_row_subscriptions: "\<exists>xs. save_row s d = Inr (d\<lparr>subscriptions := xs\<rparr>)"
  by (cases "s_wants s")
     (auto simp: save_row_def delete_subscriptions_def insert_subscriptions_def
        update_subscriptions_def)

lemma perform_invariant:
  assumes "session_invariant b" "carries_actor x"
  shows "session_invariant (perform x b)"
proof (cases "db b")
  case None
  then have "db (perform x b) = None"
    by (cases x) (simp_all add: storeNotification_def removeNotification_def setSeen_def
        clean_def saveSubscription_def Let_def split: option.splits)
  then show ?thesis by (simp add: session_invariant_def)
next
  case (Some d)
  with assms(1) have inv: "pk_distinct d \<and> every_row_has_actor d"
    by (simp add: session_invariant_def)
  show ?thesis
  proof (cases x)
    case (StoreNotification n)
    with assms(2) have who: "n_who n \<noteq> []" by (simp add: carries_actor_def)
    obtain out d' where s: "(if notificationExist n d then updateNotification n d
                 else createNotification n d) = (out, d')" by (cases "(if notificationExist n d then updateNotification n d
                 else createNotification n d)") auto
    then have "pk_distinct d' \<and> every_row_has_actor d'"
      using updateNotification_invariant[OF inv] createNotification_invariant[OF inv _ who]
      by (auto split: if_splits)
    moreover have "db (perform x b) = Some d'"
      using s Some StoreNotification by (cases out) (simp_all add: storeNotification_def)
    ultimately show ?thesis by (simp add: session_invariant_def)
  next
    case (RemoveNotification n)
    then show ?thesis using Some delete_notifications_invariant[OF inv]
      by (simp add: removeNotification_def session_invariant_def)
  next
    case (SetSeen path)
    then show ?thesis using Some update_seen_invariant[OF inv]
      by (cases path) (simp_all add: setSeen_def session_invariant_def)
  next
    case (Clean now)
    then show ?thesis using Some assms(1)
      by (simp add: clean_def remove_from_notifications_def Let_def)
  next
    case (SaveSubscription s)
    show ?thesis
    proof (cases s)
      case None
      with SaveSubscription assms(1) show ?thesis by (simp add: saveSubscription_def)
    next
      case (Some sub)
      obtain d1 where d1: "save_row sub d = Inr d1" and
         i1: "pk_distinct d1 \<and> every_row_has_actor d1"
        using save_row_subscriptions[of sub d] inv subscriptions_change_invariant[where d=d]
        by auto
      show ?thesis using SaveSubscription Some \<open>db b = Some d\<close> d1 i1 delete_notifications_invariant[OF i1]
        by (simp add: saveSubscription_def session_invariant_def Let_def)
    qed
  qed (use assms(1) in simp_all)
qed

lemma run_invariant:
  "session_invariant b \<Longrightarrow> list_all carries_actor ops \<Longrightarrow> session_invariant (run ops b)"
  by (induction ops arbitrary: b) (simp_all add: perform_invariant)

text \<open>
  C4, counterexample. \<^verbatim>\<open>storeNotification\<close> does not look at the length of \<^verbatim>\<open>who\<close>: a
  notification with no actor, stored on an empty store, leaves a notification row with
  no actor row, with the foreign-key pragma either way.
\<close>

theorem actor_less_store_persists:
  "db (run [StoreNotification (edit_at 100 [])] (open_backend False)) =
     Some \<lparr>notifications = [row_of (edit_at 100 [])], notifications_who = [],
           subscriptions = [], foreign_keys = False\<rparr> \<and>
   db (run [StoreNotification (edit_at 100 [])] (open_backend True)) =
     Some \<lparr>notifications = [row_of (edit_at 100 [])], notifications_who = [],
           subscriptions = [], foreign_keys = True\<rparr> \<and>
   session_invariant (open_backend False) \<and>
   \<not> session_invariant (run [StoreNotification (edit_at 100 [])] (open_backend False))"
  by code_simp

text \<open>
  C4, as amended. From a store whose primary key holds and whose every notification row
  has an actor row, every sequence of the public operations in which each
  \<^verbatim>\<open>storeNotification\<close> carries at least one actor ends in such a store: every
  notification row has an actor row with its what, when and where.
\<close>

theorem actors_kept_by_operations:
  assumes "session_invariant b" "list_all carries_actor ops"
  shows "session_invariant (run ops b) \<and>
         (\<forall>d'. db (run ops b) = Some d' \<longrightarrow>
            (\<forall>r \<in> set (notifications d'). \<exists>w \<in> set (notifications_who d').
               w_what w = r_what r \<and> w_when w = r_when r \<and> w_where w = r_where r))"
proof -
  have i: "session_invariant (run ops b)" using assms by (rule run_invariant)
  then show ?thesis
    by (auto simp: session_invariant_def every_row_has_actor_iff key_of_who_def key_of_row_def)
qed

theorem actors_kept_by_operations_witness:
  "session_invariant (open_backend True) \<and> list_all carries_actor mixed_ops \<and>
   session_invariant (run mixed_ops (open_backend True))"
proof -
  have a: "session_invariant (open_backend True)" by code_simp
  have c: "list_all carries_actor mixed_ops" by code_simp
  from actors_kept_by_operations[OF a c] a c show ?thesis by simp
qed

subsection \<open>Seen events are no merge candidates (C6)\<close>

lemma key_taken_other:
  "\<not> key_taken n d \<Longrightarrow> r \<in> set (notifications d) \<Longrightarrow> key_of_row r \<noteq> key_of_row (row_of n)"
  by (auto simp: key_taken_def list_ex_iff)


lemma create_loop_outcome:
  "create_loop n ws d = (out, d') \<Longrightarrow> out = Return () \<or> out = Raise IntegrityError"
proof (induction ws arbitrary: d)
  case Nil
  then show ?case by simp
next
  case (Cons w ws)
  show ?case
  proof (cases "insert_notifications_who (who_row_of n w) d")
    case (Inl e)
    with Cons.prems insert_notifications_who_Inl[OF Inl] show ?thesis by simp
  next
    case (Inr d1)
    with Cons.prems have "create_loop n ws d1 = (out, d')" by simp
    then show ?thesis by (rule Cons.IH)
  qed
qed

lemma notificationExist_candidates:
  "notificationExist n d \<Longrightarrow>
     filter (\<lambda>r. r_what r = n_what n \<and> r_where r = n_where n \<and> \<not> r_seen r) (notifications d) \<noteq> []"
  by (auto simp: notificationExist_def filter_empty_conv)

lemma store_exists:
  assumes "db b = Some d" "notificationExist n d"
  shows "\<exists>extra. storeNotification n b =
           (Return (), b\<lparr>db := Some (d\<lparr>notifications_who := notifications_who d @ extra\<rparr>)\<rparr>) \<and>
           set extra \<subseteq> who_row_of n ` set (n_who n)"
proof -
  obtain r rs where "filter (\<lambda>r. r_what r = n_what n \<and> r_where r = n_where n \<and> \<not> r_seen r) (notifications d) = r # rs"
    using notificationExist_candidates[OF assms(2)] by (meson list.exhaust)
  then have u: "updateNotification n d = update_loop n (n_who n) d"
    by (simp add: updateNotification_def)
  obtain out d' where l: "update_loop n (n_who n) d = (out, d')" by (cases "update_loop n (n_who n) d") auto
  from update_loop_appends[OF l] obtain extra where
    e: "d' = d\<lparr>notifications_who := notifications_who d @ extra\<rparr>"
       "set extra \<subseteq> who_row_of n ` set (n_who n)" "out = Return ()" by blast
  have "storeNotification n b = (Return (), b\<lparr>db := Some d'\<rparr>)"
    using assms u l e(3) by (simp add: storeNotification_def)
  with e show ?thesis by blast
qed

lemma store_clash:
  assumes "db b = Some d" "\<not> notificationExist n d"
    "key_taken n d"
  shows "storeNotification n b = (Return (), b\<lparr>db := Some d\<rparr>)"
proof -
  have "insert_notifications (row_of n) d = Inl IntegrityError"
    using assms(3) by (simp add: insert_notifications_def key_taken_def)
  then have "createNotification n d = (Raise IntegrityError, d)"
    by (simp add: createNotification_def)
  with assms(1,2) show ?thesis by (simp add: storeNotification_def)
qed

lemma store_fresh:
  assumes "db b = Some d" "\<not> notificationExist n d"
    "\<not> key_taken n d"
  shows "\<exists>extra. storeNotification n b =
           (Return (), b\<lparr>db := Some (d\<lparr>notifications := notifications d @ [row_of n],
                                          notifications_who := notifications_who d @ extra\<rparr>)\<rparr>) \<and>
           set extra \<subseteq> who_row_of n ` set (n_who n)"
proof -
  let ?d1 = "d\<lparr>notifications := notifications d @ [row_of n]\<rparr>"
  have i: "insert_notifications (row_of n) d = Inr ?d1"
    using assms(3) by (simp add: insert_notifications_def key_taken_def)
  obtain out d' where l: "create_loop n (n_who n) ?d1 = (out, d')"
    by (cases "create_loop n (n_who n) ?d1") auto
  from create_loop_appends[OF l] obtain extra where
    e: "d' = ?d1\<lparr>notifications_who := notifications_who ?d1 @ extra\<rparr>"
       "set extra \<subseteq> who_row_of n ` set (n_who n)" by blast
  have c: "createNotification n d = (out, d')" using i l by (simp add: createNotification_def)
  have "storeNotification n b = (Return (), b\<lparr>db := Some d'\<rparr>)"
    using create_loop_outcome[OF l] assms(1,2) c by (auto simp: storeNotification_def)
  with e show ?thesis by (intro exI[of _ extra]) simp
qed

lemma storeNotification_returns: "fst (storeNotification n b) = Return ()"
proof (cases "db b")
  case None
  then show ?thesis by (simp add: storeNotification_def)
next
  case (Some d)
  show ?thesis
  proof (cases "notificationExist n d")
    case True
    from store_exists[OF Some True] show ?thesis by auto
  next
    case False
    show ?thesis
    proof (cases "key_taken n d")
      case True
      from store_clash[OF Some False True] show ?thesis by simp
    next
      case f: False
      from store_fresh[OF Some False f] show ?thesis by auto
    qed
  qed
qed

lemma whos_of_other_key:
  assumes "set extra \<subseteq> who_row_of n ` set ws" "key_of_row r \<noteq> key_of_row (row_of n)"
  shows "whos_of (d\<lparr>notifications := ns, notifications_who := notifications_who d @ extra\<rparr>) r = whos_of d r"
proof -
  have "filter (\<lambda>w. key_of_who w = key_of_row r) extra = []"
    using assms by (auto simp: filter_empty_conv key_of_who_row_of)
  then show ?thesis by (simp add: whos_of_def)
qed

text \<open>
  C6, counterexample. Once bob's edit of time 100 is seen, storing an edit with the same
  what, where and info and the same timestamp creates nothing: no unseen row matches,
  the insert of the new row fails on the primary key (what, when, where), and
  \<^verbatim>\<open>storeNotification\<close> swallows the error. The store is as before and holds no unseen event.
\<close>

theorem equal_key_after_seen_creates_nothing:
  "db seen_backend = Some seen_db \<and>
   storeNotification (edit_at 100 [''alice'']) seen_backend = (Return (), seen_backend) \<and>
   getUnseenNotifications (snd (storeNotification (edit_at 100 [''alice'']) seen_backend)) = Return [] \<and>
   getAllNotifications (snd (storeNotification (edit_at 100 [''alice'']) seen_backend))
     = Return [(edit_at 100 [''bob''])\<lparr>n_seen := True\<rparr>]"
  by code_simp

text \<open>
  C6, as amended. Let a stored row be seen and a notification have its what, where and
  info. \<^verbatim>\<open>storeNotification\<close> returns. The seen row and its actors are as before whenever
  the timestamp of the notification is not that of the row, and also whenever no unseen
  row matches: only unseen rows are merge candidates. If an unseen row matches, no
  notification row is added. If none matches, a new row is added for the notification
  (with the notification's own \<^verbatim>\<open>seen\<close> flag) when its key (what, when, where) is not
  stored yet, and the store is unchanged when that key is stored already.
\<close>

theorem seen_event_not_merged:
  assumes "db b = Some d" "r \<in> set (notifications d)" "r_seen r"
    "r_what r = n_what n" "r_where r = n_where n" "r_info r = n_info n"
  shows "\<exists>d'. storeNotification n b = (Return (), b\<lparr>db := Some d'\<rparr>) \<and>
           (n_when n \<noteq> r_when r \<or> \<not> notificationExist n d \<longrightarrow>
              r \<in> set (notifications d') \<and> whos_of d' r = whos_of d r) \<and>
           (notificationExist n d \<longrightarrow> notifications d' = notifications d) \<and>
           (\<not> notificationExist n d \<and> \<not> key_taken n d \<longrightarrow>
              notifications d' = notifications d @ [row_of n]) \<and>
           (\<not> notificationExist n d \<and> key_taken n d \<longrightarrow> d' = d)"
proof (cases "notificationExist n d")
  case True
  from store_exists[OF assms(1) True] obtain extra where
    e: "storeNotification n b =
           (Return (), b\<lparr>db := Some (d\<lparr>notifications_who := notifications_who d @ extra\<rparr>)\<rparr>)"
       "set extra \<subseteq> who_row_of n ` set (n_who n)" by blast
  have "n_when n \<noteq> r_when r \<Longrightarrow>
          whos_of (d\<lparr>notifications_who := notifications_who d @ extra\<rparr>) r = whos_of d r"
  proof -
    assume "n_when n \<noteq> r_when r"
    then have "key_of_row r \<noteq> key_of_row (row_of n)" by (simp add: key_of_row_def row_of_def)
    from whos_of_other_key[OF e(2) this, of d "notifications d"] show ?thesis by simp
  qed
  with e(1) True assms(2) show ?thesis
    by (intro exI[of _ "d\<lparr>notifications_who := notifications_who d @ extra\<rparr>"]) simp
next
  case False
  show ?thesis
  proof (cases "key_taken n d")
    case True
    from store_clash[OF assms(1) False True] True False assms(2) show ?thesis
      by (intro exI[of _ d]) simp
  next
    case f: False
    from store_fresh[OF assms(1) False f] obtain extra where
      e: "storeNotification n b =
           (Return (), b\<lparr>db := Some (d\<lparr>notifications := notifications d @ [row_of n],
                                          notifications_who := notifications_who d @ extra\<rparr>)\<rparr>)"
         "set extra \<subseteq> who_row_of n ` set (n_who n)" by blast
    have "key_of_row r \<noteq> key_of_row (row_of n)" using f assms(2) by (rule key_taken_other)
    from whos_of_other_key[OF e(2) this, of d "notifications d @ [row_of n]"] e(1) False f assms(2)
    show ?thesis
      by (intro exI[of _ "d\<lparr>notifications := notifications d @ [row_of n],
                            notifications_who := notifications_who d @ extra\<rparr>"]) simp
  qed
qed

theorem seen_event_not_merged_witness:
  "db seen_backend = Some seen_db \<and> seen_row \<in> set (notifications seen_db) \<and> r_seen seen_row \<and>
   n_when (edit_at 200 [''alice'']) \<noteq> r_when seen_row \<and>
   \<not> key_taken (edit_at 200 [''alice'']) seen_db \<and>
   \<not> notificationExist (edit_at 200 [''alice'']) seen_db \<and>
   (\<exists>d'. storeNotification (edit_at 200 [''alice'']) seen_backend
            = (Return (), seen_backend\<lparr>db := Some d'\<rparr>) \<and>
          notifications d' = [seen_row, row_of (edit_at 200 [''alice''])] \<and>
          whos_of d' seen_row = [''bob''])"
proof -
  have 1: "db seen_backend = Some seen_db" by code_simp
  have 2: "seen_row \<in> set (notifications seen_db)" by (simp add: seen_db_def)
  have 3: "r_seen seen_row" by (simp add: seen_row_def)
  have 4: "r_what seen_row = n_what (edit_at 200 [''alice''])"
          "r_where seen_row = n_where (edit_at 200 [''alice''])"
          "r_info seen_row = n_info (edit_at 200 [''alice''])"
    by (simp_all add: seen_row_def row_of_def edit_at_def)
  have 5: "\<not> key_taken (edit_at 200 [''alice'']) seen_db" by code_simp
  have 6: "\<not> notificationExist (edit_at 200 [''alice'']) seen_db" by code_simp
  have 7: "notifications seen_db = [seen_row]" by (simp add: seen_db_def)
  have 8: "whos_of seen_db seen_row = [''bob'']" by code_simp
  have 9: "n_when (edit_at 200 [''alice'']) \<noteq> r_when seen_row"
    by (simp add: seen_row_def row_of_def edit_at_def)
  from seen_event_not_merged[OF 1 2 3 4] 1 2 3 5 6 7 8 9 show ?thesis by auto
qed

text \<open>
  The one case the statement above leaves open is a notification at the timestamp of the
  seen row while another, unseen, row matches: the merge then inserts the actors under
  the notification's own key, which is the key of the seen row (the behaviour shown for
  C1). After bob's edit of time 100 is seen and carol's edit of time 150 is stored, alice's
  edit of time 100 adds alice to the seen event.
\<close>

lemma merge_under_seen_key:
  "getAllNotifications
     (run [StoreNotification (edit_at 100 [''bob'']), SetSeen None,
           StoreNotification (edit_at 150 [''carol'']), StoreNotification (edit_at 100 [''alice''])]
        (open_backend False))
     = Return [edit_at 150 [''carol''], (edit_at 100 [''alice'', ''bob''])\<lparr>n_seen := True\<rparr>]"
  by code_simp

subsection \<open>Hot notifications (C7)\<close>

lemma in_take_sort_key:
  fixes k :: "'a \<Rightarrow> 'b::linorder"
  assumes "x \<in> set xs" "length (filter (\<lambda>y. k y \<le> k x) xs) \<le> n"
  shows "x \<in> set (take n (sort_key k xs))"
proof (rule ccontr)
  define ys where "ys = sort_key k xs"
  assume "x \<notin> set (take n (sort_key k xs))"
  then have out: "x \<notin> set (take n ys)" by (simp add: ys_def)
  have "x \<in> set ys" using assms(1) by (simp add: ys_def)
  moreover have "set ys = set (take n ys) \<union> set (drop n ys)"
    by (metis append_take_drop_id set_append)
  ultimately have inn: "x \<in> set (drop n ys)" using out by auto
  then have "drop n ys \<noteq> []" by auto
  then have len: "length (take n ys) = n" by simp
  have "sorted (map k (take n ys @ drop n ys))" by (simp add: ys_def)
  then have "\<forall>a \<in> set (take n ys). k a \<le> k x"
    using inn unfolding map_append sorted_append by auto
  then have f1: "filter (\<lambda>y. k y \<le> k x) (take n ys) = take n ys" by (simp add: filter_id_conv)
  have "filter (\<lambda>y. k y \<le> k x) (drop n ys) \<noteq> []" using inn by (auto simp: filter_empty_conv)
  then have f2: "1 \<le> length (filter (\<lambda>y. k y \<le> k x) (drop n ys))"
    by (cases "filter (\<lambda>y. k y \<le> k x) (drop n ys)") auto
  have "length (filter (\<lambda>y. k y \<le> k x) ys)
          = length (filter (\<lambda>y. k y \<le> k x) (take n ys)) + length (filter (\<lambda>y. k y \<le> k x) (drop n ys))"
    by (metis append_take_drop_id filter_append length_append)
  with f1 f2 len have "n + 1 \<le> length (filter (\<lambda>y. k y \<le> k x) ys)" by simp
  moreover have "length (filter (\<lambda>y. k y \<le> k x) ys) = length (filter (\<lambda>y. k y \<le> k x) xs)"
    by (simp add: ys_def filter_sort)
  ultimately show False using assms(2) by simp
qed

lemma hot_key_le:
  "((r_seen x, - r_when x) \<le> (r_seen r, - r_when r)) = hot_before x r"
  by (auto simp: hot_before_def)

lemma left_join_actor_less:
  assumes "\<not> list_ex (\<lambda>w. key_of_who w = key_of_row r) (notifications_who d)"
  shows "group_concat (whos_of d r) = None"
proof -
  have "filter (\<lambda>w. key_of_who w = key_of_row r) (notifications_who d) = []"
    using assms by (auto simp: filter_empty_conv list_ex_iff)
  then show ?thesis by (simp add: whos_of_def group_concat_def)
qed

lemma hot_includes:
  assumes "r \<in> set (notifications d)"
    "length (filter (\<lambda>x. hot_before x r) (notifications d)) \<le> 5"
  shows "(r, group_concat (whos_of d r)) \<in> set (take 5 (order_hot (left_join_grouped d)))"
proof -
  let ?g = "\<lambda>r. (r, group_concat (whos_of d r))"
  let ?k = "\<lambda>p :: notifications_row \<times> string option. (r_seen (fst p), - r_when (fst p))"
  have m: "?g r \<in> set (map ?g (notifications d))" using assms(1) by simp
  have "(\<lambda>y. ?k y \<le> ?k (?g r)) \<circ> ?g = (\<lambda>x. hot_before x r)"
    by (auto simp: fun_eq_iff hot_before_def)
  then have "filter (\<lambda>y. ?k y \<le> ?k (?g r)) (map ?g (notifications d))
          = map ?g (filter (\<lambda>x. hot_before x r) (notifications d))"
    by (simp only: filter_map)
  then have "length (filter (\<lambda>y. ?k y \<le> ?k (?g r)) (map ?g (notifications d))) \<le> 5"
    using assms(2) by simp
  from in_take_sort_key[of "?g r" "map ?g (notifications d)" ?k 5, OF m this]
  show ?thesis by (simp add: order_hot_def left_join_grouped_def)
qed

lemma sorted_pairs_nth:
  fixes k :: "'a \<Rightarrow> 'b::linorder"
  assumes "i < j" "j < length (take n (sort_key k xs))"
  shows "k (take n (sort_key k xs) ! i) \<le> k (take n (sort_key k xs) ! j)"
proof -
  have "sorted (map k (take n (sort_key k xs)))"
    unfolding take_map[symmetric] by simp
  from sorted_nth_mono[OF this, of i j] assms show ?thesis by simp
qed

lemma insort_key_map_pair:
  "insort_key (\<lambda>p. K (fst p)) (r, f r) (map (\<lambda>r. (r, f r)) ys)
     = map (\<lambda>r. (r, f r)) (insort_key K r ys)"
  by (induction ys) simp_all

lemma sort_key_map_pair:
  "sort_key (\<lambda>p. K (fst p)) (map (\<lambda>r. (r, f r)) xs) = map (\<lambda>r. (r, f r)) (sort_key K xs)"
  by (induction xs) (simp_all add: insort_key_map_pair)

lemma hot_rows:
  "take 5 (order_hot (left_join_grouped d))
     = map (\<lambda>r. (r, group_concat (whos_of d r)))
         (take 5 (sort_key (\<lambda>r. (r_seen r, - r_when r)) (notifications d)))"
  using sort_key_map_pair[of "\<lambda>r. (r_seen r, - r_when r)" "\<lambda>r. group_concat (whos_of d r)"
      "notifications d"]
  by (simp add: order_hot_def left_join_grouped_def take_map)

lemma split_from_plain:
  "CHR '','' \<notin> set w \<Longrightarrow> split_from cur w = [rev cur @ w]"
  by (induction cur w rule: split_from.induct) auto

lemma split_from_separator:
  "CHR '','' \<notin> set w \<Longrightarrow>
     split_from cur (w @ CHR '','' # CHR '' '' # s) = (rev cur @ w) # split_from [] s"
proof (induction w arbitrary: cur)
  case Nil
  show ?case by simp
next
  case (Cons c w)
  obtain e es where t: "w @ CHR '','' # CHR '' '' # s = e # es"
    by (cases "w @ CHR '','' # CHR '' '' # s") auto
  have n: "c \<noteq> CHR '',''" using Cons.prems by auto
  have "split_from cur ((c # w) @ CHR '','' # CHR '' '' # s)
          = split_from (c # cur) (w @ CHR '','' # CHR '' '' # s)"
    using n by (simp add: t)
  also have "\<dots> = (rev (c # cur) @ w) # split_from [] s" using Cons by simp
  finally show ?case by simp
qed

text \<open>
  Joining actor identifiers with \<^verbatim>\<open>', '\<close> and splitting the result gives the identifiers
  back when none of them holds a comma.
\<close>

lemma split_group_concat:
  assumes "\<forall>w \<in> set ws. CHR '','' \<notin> set w"
  shows "(case group_concat ws of None \<Rightarrow> [] | Some s \<Rightarrow> split s) = ws"
proof (cases ws)
  case Nil
  then show ?thesis by (simp add: group_concat_def)
next
  case (Cons x ys)
  have f: "foldl (\<lambda>a b. a @ '', '' @ b) (p @ x) ys = p @ foldl (\<lambda>a b. a @ '', '' @ b) x ys"
    for p x :: string and ys
    by (induction ys arbitrary: x) simp_all
  have "\<forall>w \<in> set (x # ys). CHR '','' \<notin> set w \<Longrightarrow>
          split_from cur (foldl (\<lambda>a b. a @ '', '' @ b) x ys) = (rev cur @ x) # ys" for cur x ys
  proof (induction ys arbitrary: cur x)
    case Nil
    then show ?case by (simp add: split_from_plain)
  next
    case (Cons y ys)
    have "foldl (\<lambda>a b. a @ '', '' @ b) (x @ '', '' @ y) ys
            = x @ '', '' @ foldl (\<lambda>a b. a @ '', '' @ b) y ys"
      using f[of "x @ '', ''" y ys] by simp
    moreover have "split_from cur (x @ CHR '','' # CHR '' '' # foldl (\<lambda>a b. a @ '', '' @ b) y ys)
                 = (rev cur @ x) # split_from [] (foldl (\<lambda>a b. a @ '', '' @ b) y ys)"
      using Cons.prems by (intro split_from_separator) simp
    ultimately have "split_from cur (foldl (\<lambda>a b. a @ '', '' @ b) x (y # ys))
                 = (rev cur @ x) # split_from [] (foldl (\<lambda>a b. a @ '', '' @ b) y ys)"
      by simp
    also have "split_from [] (foldl (\<lambda>a b. a @ '', '' @ b) y ys) = y # ys"
      using Cons.IH[of y "[]"] Cons.prems by simp
    finally show ?case .
  qed
  from this[of x ys "[]"] assms Cons show ?thesis
    by (simp add: group_concat_def split_def)
qed

text \<open>
  C7. On an open session \<^verbatim>\<open>getHotNotifications\<close> returns the events of the notification
  rows that stand first in hot order: the rows of the store can be arranged as the rows
  returned followed by the rows left out, every row returned stands at or before every
  row left out (unseen before seen, and of two rows of the same seen flag the newer
  first), and each event returned carries the fields of its row and the actors of that
  row. At most five events are returned (five, or all of them when the store has
  fewer), in an order where no seen event stands before an unseen one and, of two
  events of the same seen flag, the earlier in the list is not the older.
\<close>

theorem getHotNotifications_ordered:
  assumes "db b = Some d"
  shows "\<exists>hs rs rest. getHotNotifications b = Return hs \<and>
           hs = map (\<lambda>r. \<lparr>n_what = r_what r, n_where = r_where r, n_when = r_when r,
                            n_who = (case group_concat (whos_of d r) of
                                       None \<Rightarrow> [] | Some s \<Rightarrow> split s),
                            n_gatherer = r_gatherer r, n_seen = r_seen r,
                            n_info = r_info r\<rparr>) rs \<and>
           mset (rs @ rest) = mset (notifications d) \<and>
           (\<forall>r \<in> set rs. \<forall>x \<in> set rest.
              (r_seen r \<longrightarrow> r_seen x) \<and> (r_seen r = r_seen x \<longrightarrow> r_when x \<le> r_when r)) \<and>
           length hs \<le> 5 \<and>
           length hs = min 5 (length (notifications d)) \<and>
           (\<forall>i j. i < j \<and> j < length hs \<longrightarrow>
              (n_seen (hs ! i) \<longrightarrow> n_seen (hs ! j)) \<and>
              (n_seen (hs ! i) = n_seen (hs ! j) \<longrightarrow> n_when (hs ! j) \<le> n_when (hs ! i)))"
proof -
  let ?K = "\<lambda>r :: notifications_row. (r_seen r, - r_when r)"
  let ?e = "\<lambda>r. \<lparr>n_what = r_what r, n_where = r_where r, n_when = r_when r,
                   n_who = (case group_concat (whos_of d r) of None \<Rightarrow> [] | Some s \<Rightarrow> split s),
                   n_gatherer = r_gatherer r, n_seen = r_seen r, n_info = r_info r\<rparr>"
  let ?srt = "sort_key ?K (notifications d)"
  let ?rs = "take 5 ?srt"
  let ?rest = "drop 5 ?srt"
  let ?hs = "map ?e ?rs"
  have c: "createNotificationFromResult \<circ> (\<lambda>r. (r, group_concat (whos_of d r))) = ?e"
    by (simp add: fun_eq_iff createNotificationFromResult_def)
  have h: "getHotNotifications b = Return ?hs"
    using assms by (simp add: getHotNotifications_def hot_rows c)
  have m: "mset (?rs @ ?rest) = mset (notifications d)" by simp
  have l: "length ?hs = min 5 (length (notifications d))" by (simp add: min.commute)
  have l5: "length ?hs \<le> 5" by simp
  have "sorted (map ?K (?rs @ ?rest))" by simp
  then have "\<forall>r \<in> set ?rs. \<forall>x \<in> set ?rest. ?K r \<le> ?K x"
    unfolding map_append sorted_append by auto
  then have t: "\<forall>r \<in> set ?rs. \<forall>x \<in> set ?rest.
              (r_seen r \<longrightarrow> r_seen x) \<and> (r_seen r = r_seen x \<longrightarrow> r_when x \<le> r_when r)"
    by auto
  have o: "\<forall>i j. i < j \<and> j < length ?hs \<longrightarrow>
              (n_seen (?hs ! i) \<longrightarrow> n_seen (?hs ! j)) \<and>
              (n_seen (?hs ! i) = n_seen (?hs ! j) \<longrightarrow> n_when (?hs ! j) \<le> n_when (?hs ! i))"
  proof (intro allI impI)
    fix i j assume a: "i < j \<and> j < length ?hs"
    then have ij: "i < j" "j < length ?rs" "i < length ?rs" by auto
    from sorted_pairs_nth[OF ij(1,2)] have "?K (?rs ! i) \<le> ?K (?rs ! j)" .
    moreover have "n_seen (?hs ! i) = r_seen (?rs ! i)" "n_seen (?hs ! j) = r_seen (?rs ! j)"
      "n_when (?hs ! i) = r_when (?rs ! i)" "n_when (?hs ! j) = r_when (?rs ! j)"
      using ij by simp_all
    ultimately show "(n_seen (?hs ! i) \<longrightarrow> n_seen (?hs ! j)) \<and>
              (n_seen (?hs ! i) = n_seen (?hs ! j) \<longrightarrow> n_when (?hs ! j) \<le> n_when (?hs ! i))"
      by auto
  qed
  show ?thesis
  proof (rule exI[of _ ?hs], rule exI[of _ ?rs], rule exI[of _ ?rest], intro conjI)
    show "getHotNotifications b = Return ?hs" by (rule h)
    show "?hs = map ?e ?rs" by (rule refl)
    show "mset (?rs @ ?rest) = mset (notifications d)" by (rule m)
    show "\<forall>r \<in> set ?rs. \<forall>x \<in> set ?rest.
              (r_seen r \<longrightarrow> r_seen x) \<and> (r_seen r = r_seen x \<longrightarrow> r_when x \<le> r_when r)"
      by (rule t)
    show "length ?hs \<le> 5" by (rule l5)
    show "length ?hs = min 5 (length (notifications d))" by (rule l)
    show "\<forall>i j. i < j \<and> j < length ?hs \<longrightarrow>
              (n_seen (?hs ! i) \<longrightarrow> n_seen (?hs ! j)) \<and>
              (n_seen (?hs ! i) = n_seen (?hs ! j) \<longrightarrow> n_when (?hs ! j) \<le> n_when (?hs ! i))"
      by (rule o)
  qed
qed

theorem getHotNotifications_ordered_witness:
  "db hot_backend = Some hot_db \<and>
   getHotNotifications hot_backend =
     Return [note_at ''/p5'' 50 False [''alice'', ''bob''], note_at ''/p3'' 30 False [''bob''],
             note_at ''/p1'' 10 False [''bob''], note_at ''/p4'' 40 True [''bob''],
             note_at ''/p2'' 20 True [''bob'']] \<and>
   (\<exists>hs rs rest. getHotNotifications hot_backend = Return hs \<and> length hs = 5 \<and>
      length rs = 5 \<and> mset (rs @ rest) = mset (notifications hot_db) \<and>
      map r_where rs = map n_where hs \<and>
      \<not> n_seen (hs ! 0) \<and> n_seen (hs ! 4) \<and> n_when (hs ! 1) \<le> n_when (hs ! 0))"
proof -
  have 1: "db hot_backend = Some hot_db" by code_simp
  have 2: "length (notifications hot_db) = 6" by (simp add: hot_db_def)
  have 3: "getHotNotifications hot_backend =
     Return [note_at ''/p5'' 50 False [''alice'', ''bob''], note_at ''/p3'' 30 False [''bob''],
             note_at ''/p1'' 10 False [''bob''], note_at ''/p4'' 40 True [''bob''],
             note_at ''/p2'' 20 True [''bob'']]" by code_simp
  let ?e = "\<lambda>r. \<lparr>n_what = r_what r, n_where = r_where r, n_when = r_when r,
                   n_who = (case group_concat (whos_of hot_db r) of None \<Rightarrow> [] | Some s \<Rightarrow> split s),
                   n_gatherer = r_gatherer r, n_seen = r_seen r, n_info = r_info r\<rparr>"
  from getHotNotifications_ordered[OF 1] obtain hs rs rest where
    h: "getHotNotifications hot_backend = Return hs" "hs = map ?e rs"
       "mset (rs @ rest) = mset (notifications hot_db)"
       "length hs = min 5 (length (notifications hot_db))"
       "\<forall>i j. i < j \<and> j < length hs \<longrightarrow>
              (n_seen (hs ! i) \<longrightarrow> n_seen (hs ! j)) \<and>
              (n_seen (hs ! i) = n_seen (hs ! j) \<longrightarrow> n_when (hs ! j) \<le> n_when (hs ! i))"
    by blast
  from h(4) 2 have l: "length hs = 5" by simp
  from h(2) l have lr: "length rs = 5" by simp
  from h(2) have w: "map r_where rs = map n_where hs" by (simp add: o_def)
  from h(1) 3 have e: "hs = [note_at ''/p5'' 50 False [''alice'', ''bob''], note_at ''/p3'' 30 False [''bob''],
             note_at ''/p1'' 10 False [''bob''], note_at ''/p4'' 40 True [''bob''],
             note_at ''/p2'' 20 True [''bob'']]" by simp
  have s: "\<not> n_seen (hs ! 0) \<and> n_seen (hs ! 4)" unfolding e by (simp add: note_at_def)
  from h(5) l have "(n_seen (hs ! 0) = n_seen (hs ! 1) \<longrightarrow> n_when (hs ! 1) \<le> n_when (hs ! 0))"
    by simp
  moreover have "n_seen (hs ! 0) = n_seen (hs ! 1)" unfolding e by (simp add: note_at_def)
  ultimately have "n_when (hs ! 1) \<le> n_when (hs ! 0)" by simp
  with 1 3 h(1) h(3) l lr w s show ?thesis by blast
qed

subsection \<open>Events without actors in the queries (C8)\<close>

text \<open>
  C8, counterexample. The session \<open>hot_backend\<close> has stored six notifications; \<^verbatim>\<open>/ghost\<close> has no actor
  row and is the last in hot order. \<^verbatim>\<open>getHotNotifications\<close> stops after five rows
  (\<^verbatim>\<open>LIMIT 5\<close>), so the event is in neither result.
\<close>

theorem actor_less_event_beyond_five:
  "db hot_backend = Some hot_db \<and>
   list_ex (\<lambda>r. r_where r = ''/ghost'') (notifications hot_db) \<and>
   \<not> list_ex (\<lambda>w. w_where w = ''/ghost'') (notifications_who hot_db) \<and>
   getHotNotifications hot_backend =
     Return [note_at ''/p5'' 50 False [''alice'', ''bob''], note_at ''/p3'' 30 False [''bob''],
             note_at ''/p1'' 10 False [''bob''], note_at ''/p4'' 40 True [''bob''],
             note_at ''/p2'' 20 True [''bob'']] \<and>
   getAllNotifications hot_backend =
     Return [note_at ''/p5'' 50 False [''alice'', ''bob''], note_at ''/p4'' 40 True [''bob''],
             note_at ''/p3'' 30 False [''bob''], note_at ''/p2'' 20 True [''bob''],
             note_at ''/p1'' 10 False [''bob'']]"
  by code_simp

text \<open>
  C8, as amended. On an open session, a notification row with no actor row is in no
  event of \<^verbatim>\<open>getAllNotifications\<close>, and, provided at most five rows of the store (itself
  counted) stand at or before it in hot order, which is so in every store of at most
  five notifications, it is among the events of \<^verbatim>\<open>getHotNotifications\<close> with an empty
  actor list.
\<close>

theorem actor_less_event_in_hot_not_in_all:
  assumes "db b = Some d" "r \<in> set (notifications d)"
    "\<not> list_ex (\<lambda>w. key_of_who w = key_of_row r) (notifications_who d)"
    "length (filter (\<lambda>x. hot_before x r) (notifications d)) \<le> 5"
  shows "\<exists>ns hs. getAllNotifications b = Return ns \<and> getHotNotifications b = Return hs \<and>
           \<not> list_ex (\<lambda>n. n_what n = r_what r \<and> n_when n = r_when r \<and> n_where n = r_where r) ns \<and>
           \<lparr>n_what = r_what r, n_where = r_where r, n_when = r_when r, n_who = [],
            n_gatherer = r_gatherer r, n_seen = r_seen r, n_info = r_info r\<rparr> \<in> set hs"
proof -
  let ?ns = "map createNotificationFromResult (order_when_desc (inner_join_grouped d))"
  let ?hs = "map createNotificationFromResult (take 5 (order_hot (left_join_grouped d)))"
  have a: "getAllNotifications b = Return ?ns" using assms(1) by (simp add: getAllNotifications_def)
  have h: "getHotNotifications b = Return ?hs" using assms(1) by (simp add: getHotNotifications_def)
  have "(r, None) \<in> set (take 5 (order_hot (left_join_grouped d)))"
    using hot_includes[OF assms(2,4)] left_join_actor_less[OF assms(3)] by simp
  then have "createNotificationFromResult (r, None) \<in> set ?hs" by force
  then have inc: "\<lparr>n_what = r_what r, n_where = r_where r, n_when = r_when r, n_who = [],
            n_gatherer = r_gatherer r, n_seen = r_seen r, n_info = r_info r\<rparr> \<in> set ?hs"
    by (simp add: createNotificationFromResult_def)
  have exc: "\<not> list_ex (\<lambda>n. n_what n = r_what r \<and> n_when n = r_when r \<and> n_where n = r_where r) ?ns"
  proof
    assume "list_ex (\<lambda>n. n_what n = r_what r \<and> n_when n = r_when r \<and> n_where n = r_where r) ?ns"
    then obtain p where p: "p \<in> set (inner_join_grouped d)"
      "r_what (fst p) = r_what r" "r_when (fst p) = r_when r" "r_where (fst p) = r_where r"
      by (auto simp: list_ex_iff order_when_desc_def createNotificationFromResult_def)
    then have "list_ex (\<lambda>w. key_of_who w = key_of_row (fst p)) (notifications_who d)"
      by (auto simp: inner_join_grouped_def)
    moreover have "key_of_row (fst p) = key_of_row r" using p by (simp add: key_of_row_def)
    ultimately show False using assms(3) by simp
  qed
  from a h inc exc show ?thesis by blast
qed

theorem actor_less_event_witness:
  "db ghost_backend = Some ghost_db \<and>
   row_of (note_at ''/ghost'' 1 False []) \<in> set (notifications ghost_db) \<and>
   \<not> list_ex (\<lambda>w. key_of_who w = key_of_row (row_of (note_at ''/ghost'' 1 False [])))
        (notifications_who ghost_db) \<and>
   length (filter (\<lambda>x. hot_before x (row_of (note_at ''/ghost'' 1 False []))) (notifications ghost_db)) \<le> 5 \<and>
   (\<exists>ns hs. getAllNotifications ghost_backend = Return ns \<and>
      getHotNotifications ghost_backend = Return hs \<and>
      \<not> list_ex (\<lambda>n. n_where n = ''/ghost'') ns \<and> note_at ''/ghost'' 1 False [] \<in> set hs)"
proof -
  let ?r = "row_of (note_at ''/ghost'' 1 False [])"
  have 1: "db ghost_backend = Some ghost_db" by code_simp
  have 2: "?r \<in> set (notifications ghost_db)" by (simp add: ghost_db_def)
  have 3: "\<not> list_ex (\<lambda>w. key_of_who w = key_of_row ?r) (notifications_who ghost_db)" by code_simp
  have 4: "length (filter (\<lambda>x. hot_before x ?r) (notifications ghost_db)) \<le> 5"
    by (simp add: ghost_db_def)
  have 5: "getAllNotifications ghost_backend = Return [note_at ''/p1'' 10 False [''bob'']]" by code_simp
  have 6: "\<lparr>n_what = r_what ?r, n_where = r_where ?r, n_when = r_when ?r, n_who = [],
            n_gatherer = r_gatherer ?r, n_seen = r_seen ?r, n_info = r_info ?r\<rparr> = note_at ''/ghost'' 1 False []"
    by (simp add: row_of_def note_at_def)
  from actor_less_event_in_hot_not_in_all[OF 1 2 3 4] obtain ns hs where
    r: "getAllNotifications ghost_backend = Return ns" "getHotNotifications ghost_backend = Return hs"
       "note_at ''/ghost'' 1 False [] \<in> set hs"
    unfolding 6 by blast
  from r(1) 5 have "ns = [note_at ''/p1'' 10 False [''bob'']]" by simp
  then have "\<not> list_ex (\<lambda>n. n_where n = ''/ghost'') ns" by (simp add: note_at_def)
  with r 1 2 3 4 show ?thesis by blast
qed

subsection \<open>Cascade of saveSubscription (C5)\<close>

lemma like_percent_skip: "like q t \<Longrightarrow> like (CHR ''%'' # q) t"
  by (cases t) simp_all

lemma like_percent_all: "like ''%'' t"
  by (induction t) simp_all

lemma prefix_like: "prefix p t \<Longrightarrow> like (p @ ''%'') t"
proof (induction p arbitrary: t)
  case Nil
  show ?case using like_percent_all by simp
next
  case (Cons a p)
  from Cons.prems obtain ts where t: "t = a # ts" and pre: "prefix p ts"
    by (cases t) auto
  from Cons.IH[OF pre] have ih: "like (p @ ''%'') ts" .
  show ?case
  proof (cases "a = CHR ''%''")
    case True
    from like_percent_skip[OF ih] have "like (CHR ''%'' # p @ ''%'') ts" .
    then show ?thesis using t True by simp
  next
    case False
    then show ?thesis using t ih by simp
  qed
qed

lemma delete_notifications_keeps_whos:
  assumes "pk_distinct d" "r \<in> set (notifications d)" "\<not> P r"
  shows "whos_of (delete_notifications P d) r = whos_of d r"
proof (cases "foreign_keys d")
  case False
  then show ?thesis by (simp add: whos_of_def delete_notifications_def)
next
  case True
  have inj: "inj_on key_of_row (set (notifications d))"
    using assms(1) by (simp add: pk_distinct_def distinct_map)
  have "\<not> list_ex (\<lambda>x. P x \<and> key_of_row x = key_of_who w) (notifications d)"
    if "key_of_who w = key_of_row r" for w
  proof
    assume "list_ex (\<lambda>x. P x \<and> key_of_row x = key_of_who w) (notifications d)"
    then obtain x where x: "x \<in> set (notifications d)" "P x" "key_of_row x = key_of_who w"
      by (auto simp: list_ex_iff)
    from x(3) that have "key_of_row x = key_of_row r" by simp
    with inj assms(2) x(1) have "x = r" by (auto dest: inj_onD)
    with x(2) assms(3) show False by simp
  qed
  then have "filter (\<lambda>w. key_of_who w = key_of_row r)
               (filter (\<lambda>w. \<not> list_ex (\<lambda>x. P x \<and> key_of_row x = key_of_who w) (notifications d))
                  (notifications_who d))
             = filter (\<lambda>w. key_of_who w = key_of_row r) (notifications_who d)"
    by (auto intro: filter_cong)
  then show ?thesis using True by (simp add: whos_of_def delete_notifications_def)
qed

text \<open>
  What the cascade does in general. On an open session, for \<^verbatim>\<open>wants\<close> \<^verbatim>\<open>False\<close> or \<^verbatim>\<open>None\<close>,
  \<^verbatim>\<open>saveSubscription\<close> returns and leaves exactly the notifications whose \<^verbatim>\<open>where\<close> does
  not match the \<^verbatim>\<open>LIKE\<close> pattern (\<^verbatim>\<open>where\<close> of the subscription, then \<^verbatim>\<open>%\<close>), in their
  order and, where the primary key holds, each with its actors; no notification whose
  \<^verbatim>\<open>where\<close> starts with the subscription's is left; and for \<^verbatim>\<open>None\<close> no subscription row
  for that location is left.
\<close>

lemma saveSubscription_cascade:
  assumes "db b = Some d" "s_wants s = None \<or> s_wants s = Some False"
  shows "\<exists>d'. saveSubscription (Some s) b =
              (Return (), b\<lparr>db := Some d', events := events b @ [BlacklistedEvent (s_where s)]\<rparr>) \<and>
           notifications d' = filter (\<lambda>r. \<not> like (s_where s @ ''%'') (r_where r)) (notifications d) \<and>
           (\<forall>r \<in> set (notifications d'). \<not> prefix (s_where s) (r_where r)) \<and>
           (pk_distinct d \<longrightarrow> (\<forall>r \<in> set (notifications d'). whos_of d' r = whos_of d r)) \<and>
           (s_wants s = None \<longrightarrow> \<not> list_ex (\<lambda>x. sub_where x = s_where s) (subscriptions d'))"
proof -
  obtain xs where x: "save_row s d = Inr (d\<lparr>subscriptions := xs\<rparr>)"
    using save_row_subscriptions by blast
  have xn: "s_wants s = None \<Longrightarrow> xs = filter (\<lambda>x. sub_where x \<noteq> s_where s) (subscriptions d)"
  proof -
    assume "s_wants s = None"
    then have "save_row s d =
        Inr (d\<lparr>subscriptions := filter (\<lambda>x. sub_where x \<noteq> s_where s) (subscriptions d)\<rparr>)"
      by (simp add: save_row_def delete_subscriptions_def)
    with x have "subscriptions (d\<lparr>subscriptions := xs\<rparr>) =
        subscriptions (d\<lparr>subscriptions := filter (\<lambda>x. sub_where x \<noteq> s_where s) (subscriptions d)\<rparr>)"
      by simp
    then show ?thesis by simp
  qed
  let ?P = "\<lambda>r. like (s_where s @ ''%'') (r_where r)"
  let ?d1 = "d\<lparr>subscriptions := xs\<rparr>"
  let ?d' = "delete_notifications ?P ?d1"
  have t: "s_wants s \<noteq> Some True" using assms(2) by auto
  have 1: "saveSubscription (Some s) b =
              (Return (), b\<lparr>db := Some ?d', events := events b @ [BlacklistedEvent (s_where s)]\<rparr>)"
    using assms(1) x t by (simp add: saveSubscription_def Let_def)
  have 2: "notifications ?d' = filter (\<lambda>r. \<not> ?P r) (notifications d)"
    by (simp add: delete_notifications_def)
  have 3: "\<forall>r \<in> set (notifications ?d'). \<not> prefix (s_where s) (r_where r)"
    unfolding 2 using prefix_like by auto
  have 4: "s_wants s = None \<longrightarrow> \<not> list_ex (\<lambda>x. sub_where x = s_where s) (subscriptions ?d')"
    using xn by (auto simp: delete_notifications_def list_ex_iff)
  have 5: "pk_distinct d \<longrightarrow> (\<forall>r \<in> set (notifications ?d'). whos_of ?d' r = whos_of d r)"
  proof (intro impI ballI)
    fix r assume pk: "pk_distinct d" and r: "r \<in> set (notifications ?d')"
    have pk1: "pk_distinct ?d1" using pk by (simp add: pk_distinct_def)
    have r1: "r \<in> set (notifications ?d1)" "\<not> ?P r" using r unfolding 2 by auto
    have "whos_of ?d' r = whos_of ?d1 r"
      using pk1 r1 by (rule delete_notifications_keeps_whos)
    then show "whos_of ?d' r = whos_of d r" by (simp add: whos_of_def)
  qed
  show ?thesis
  proof (rule exI[of _ ?d'], intro conjI)
    show "saveSubscription (Some s) b =
              (Return (), b\<lparr>db := Some ?d', events := events b @ [BlacklistedEvent (s_where s)]\<rparr>)"
      by (rule 1)
    show "notifications ?d' = filter (\<lambda>r. \<not> ?P r) (notifications d)" by (rule 2)
    show "\<forall>r \<in> set (notifications ?d'). \<not> prefix (s_where s) (r_where r)" by (rule 3)
    show "pk_distinct d \<longrightarrow> (\<forall>r \<in> set (notifications ?d'). whos_of ?d' r = whos_of d r)" by (rule 5)
    show "s_wants s = None \<longrightarrow> \<not> list_ex (\<lambda>x. sub_where x = s_where s) (subscriptions ?d')"
      by (rule 4)
  qed
qed

text \<open>
  C5 (the code departs from it). The claim: \<^verbatim>\<open>saveSubscription\<close> with \<^verbatim>\<open>wants\<close> \<^verbatim>\<open>False\<close> or
  \<^verbatim>\<open>None\<close> deletes the notifications whose \<^verbatim>\<open>where\<close> starts with the location of the
  subscription and leaves the others unchanged. The cascade is a \<^verbatim>\<open>LIKE\<close> on the location
  followed by \<^verbatim>\<open>%\<close>, with the location not escaped, so \<^verbatim>\<open>_\<close> and \<^verbatim>\<open>%\<close> in it are
  wildcards and letters match without case. In the session \<open>paths_backend\<close>, with
  notifications of \<^verbatim>\<open>/a/b\<close>, \<^verbatim>\<open>/a/c\<close>, \<^verbatim>\<open>/b\<close> and \<^verbatim>\<open>/axb\<close>, blacklisting \<^verbatim>\<open>/a_b\<close> deletes the
  notifications of \<^verbatim>\<open>/axb\<close> and of \<^verbatim>\<open>/a/b\<close>, and revoking \<^verbatim>\<open>/A\<close> deletes those of \<^verbatim>\<open>/a/b\<close>,
  \<^verbatim>\<open>/a/c\<close> and \<^verbatim>\<open>/axb\<close>; none of them starts with the location saved.
\<close>

theorem saveSubscription_over_deletes:
  "\<not> prefix ''/a_b'' ''/axb'' \<and> \<not> prefix ''/a_b'' ''/a/b'' \<and>
   \<not> prefix ''/A'' ''/a/b'' \<and> \<not> prefix ''/A'' ''/a/c'' \<and> \<not> prefix ''/A'' ''/axb'' \<and>
   db paths_backend = Some paths_db \<and>
   getAllNotifications paths_backend =
     Return [note_at ''/axb'' 40 False [''bob''], note_at ''/b'' 30 False [''bob''],
             note_at ''/a/c'' 20 False [''bob''], note_at ''/a/b'' 10 False [''bob'']] \<and>
   getAllNotifications
     (snd (saveSubscription (Some \<lparr>s_where = ''/a_b'', s_wants = Some False\<rparr>) paths_backend)) =
     Return [note_at ''/b'' 30 False [''bob''], note_at ''/a/c'' 20 False [''bob'']] \<and>
   getAllNotifications
     (snd (saveSubscription (Some \<lparr>s_where = ''/A'', s_wants = None\<rparr>) paths_backend)) =
     Return [note_at ''/b'' 30 False [''bob'']]"
  by code_simp

end
